theory Spec2Isabelle
  imports Complex_Main "HOL-Library.AList"
begin

section \<open>Data model\<close>

text \<open>
  Python floats are modelled as \<^typ>\<open>real\<close>, Python's unbounded integers as \<^typ>\<open>int\<close>,
  list positions and vertex rows as \<^typ>\<open>nat\<close>.  A vertex row of the \<open>V3n3\<close> vertex
  format holds a position and a normal.
\<close>

datatype vertex = Vertex (vx: real) (vy: real) (vz: real) (vnx: real) (vny: real) (vnz: real)

type_synonym triangle = "nat \<times> nat \<times> nat"

text \<open>The \<open>Geom\<close> handed to the renderer: the vertex rows and the triangle primitive.\<close>

record geom =
  vdata :: "vertex list"
  tris :: "triangle list"

text \<open>The keyword arguments shared by \<open>tableGeometry\<close> and \<open>vaseGeometry\<close>.\<close>

record shape_args =
  segment_count :: int
  object_width :: real
  twist_angle :: real
  twist_groove_depth :: real
  vertical_wave_freq :: real
  vertical_wave_depth :: real

section \<open>Surface modulation\<close>

text \<open>\<open>get_surface_modulation\<close> of \<open>table/geometry.py\<close>; \<open>phi += ...\<close> rebinds \<open>phi\<close>.\<close>

definition table_get_surface_modulation :: "shape_args \<Rightarrow> real \<Rightarrow> real \<Rightarrow> real" where
  "table_get_surface_modulation a phi length_ratio =
     (let phi = phi + twist_angle a * 0.067 * pi * length_ratio;
          modulated_radius = object_width a
            + (twist_groove_depth a * 0.06) * cos (of_int (segment_count a) * phi)
            + (vertical_wave_depth a * 0.15) * cos (vertical_wave_freq a * length_ratio)
      in modulated_radius)"

text \<open>\<open>get_surface_modulation\<close> and \<open>get_inner_surface_modulation\<close> of \<open>vase/geometry.py\<close>;
  the closure variable \<open>wall_thickness\<close> is passed explicitly.\<close>

definition vase_get_surface_modulation :: "shape_args \<Rightarrow> real \<Rightarrow> real \<Rightarrow> real" where
  "vase_get_surface_modulation a phi length_ratio =
     (let phi = phi + twist_angle a * 0.067 * pi * length_ratio;
          modulated_radius = object_width a
            + (twist_groove_depth a * 0.06) * cos (of_int (segment_count a) * phi)
            + (vertical_wave_depth a * 0.15) * cos (vertical_wave_freq a * length_ratio)
      in modulated_radius)"

definition get_inner_surface_modulation :: "shape_args \<Rightarrow> real \<Rightarrow> real \<Rightarrow> real \<Rightarrow> real" where
  "get_inner_surface_modulation a wall_thickness phi length_ratio =
     (let phi = phi + twist_angle a * 0.067 * pi * length_ratio;
          modulated_radius = (object_width a - wall_thickness)
            + (twist_groove_depth a * 0.06) * cos (of_int (segment_count a) * phi)
            + (vertical_wave_depth a * 0.15) * cos (vertical_wave_freq a * length_ratio)
      in modulated_radius)"

text \<open>The radius formula as the specification words it (section 4.1), for comparison
  with the two source functions.\<close>

definition spec_radius ::
  "real \<Rightarrow> real \<Rightarrow> real \<Rightarrow> int \<Rightarrow> real \<Rightarrow> real \<Rightarrow> real \<Rightarrow> real \<Rightarrow> real" where
  "spec_radius baseWidth phi lengthRatio segmentCount twistAngle grooveDepth waveFreq waveDepth =
     baseWidth
       + grooveDepth * 0.06 * cos (of_int segmentCount * (phi + twistAngle * 0.067 * pi * lengthRatio))
       + waveDepth * 0.15 * cos (waveFreq * lengthRatio)"

section \<open>The solid (table) builder\<close>

definition table_height :: real where "table_height = 2.0"
definition table_segments :: nat where "table_segments = 100"
definition table_height_segments :: nat where "table_height_segments = 50"

text \<open>\<open>add_vertex\<close>: append one row; the result is \<open>getWriteRow() - 1\<close>, the row just written.\<close>

definition table_add_vertex :: "vertex list \<Rightarrow> vertex \<Rightarrow> vertex list \<times> nat" where
  "table_add_vertex vd v = (let vd' = vd @ [v] in (vd', length vd' - 1))"

text \<open>Body of the loop that emits the top and bottom rim vertices.\<close>

definition table_rim_step ::
  "shape_args \<Rightarrow> nat \<Rightarrow> vertex list \<times> nat list \<times> nat list \<Rightarrow> vertex list \<times> nat list \<times> nat list" where
  "table_rim_step a i s =
     (case s of (vd, top_vertices, bottom_vertices) \<Rightarrow>
      let half_height = table_height / 2.0;
          angle = (2.0 * pi * real i) / real table_segments;
          top_radius = table_get_surface_modulation a angle 1.0;
          bottom_radius = table_get_surface_modulation a angle 0.0;
          (vd, top_v) = table_add_vertex vd
             (Vertex (top_radius * cos angle) (top_radius * sin angle) half_height 0 0 1);
          top_vertices = top_vertices @ [top_v];
          (vd, bottom_v) = table_add_vertex vd
             (Vertex (bottom_radius * cos angle) (bottom_radius * sin angle) (- half_height) 0 0 (-1));
          bottom_vertices = bottom_vertices @ [bottom_v]
      in (vd, top_vertices, bottom_vertices))"

text \<open>Bodies of the two cap-fan loops.  The rim lists have \<open>segments\<close> entries, so the
  list reads are in range.\<close>

definition table_top_fan_step :: "nat \<Rightarrow> nat list \<Rightarrow> nat \<Rightarrow> triangle list \<Rightarrow> triangle list" where
  "table_top_fan_step top_center top_vertices i indices =
     (let next_i = (i + 1) mod table_segments
      in indices @ [(top_center, top_vertices ! i, top_vertices ! next_i)])"

definition table_bottom_fan_step :: "nat \<Rightarrow> nat list \<Rightarrow> nat \<Rightarrow> triangle list \<Rightarrow> triangle list" where
  "table_bottom_fan_step bottom_center bottom_vertices i indices =
     (let next_i = (i + 1) mod table_segments
      in indices @ [(bottom_center, bottom_vertices ! next_i, bottom_vertices ! i)])"

text \<open>Body of the inner side-wall loop: four fresh rows and two triangles per quad.\<close>

definition table_side_step ::
  "shape_args \<Rightarrow> nat \<Rightarrow> nat \<Rightarrow> vertex list \<times> triangle list \<Rightarrow> vertex list \<times> triangle list" where
  "table_side_step a h i s =
     (case s of (vd, indices) \<Rightarrow>
      let half_height = table_height / 2.0;
          z1 = half_height - (table_height * real h) / real table_height_segments;
          z2 = half_height - (table_height * real (h + 1)) / real table_height_segments;
          length_ratio1 = 1.0 - (real h / real table_height_segments);
          length_ratio2 = 1.0 - (real (h + 1) / real table_height_segments);
          next_i = (i + 1) mod table_segments;
          angle1 = (2.0 * pi * real i) / real table_segments;
          angle2 = (2.0 * pi * real next_i) / real table_segments;
          radius1_lower = table_get_surface_modulation a angle1 length_ratio2;
          radius1_upper = table_get_surface_modulation a angle1 length_ratio1;
          radius2_lower = table_get_surface_modulation a angle2 length_ratio2;
          radius2_upper = table_get_surface_modulation a angle2 length_ratio1;
          mid_angle = (angle1 + angle2) / 2.0;
          nx = cos mid_angle;
          ny = sin mid_angle;
          (vd, v1) = table_add_vertex vd
             (Vertex (radius1_upper * cos angle1) (radius1_upper * sin angle1) z1 nx ny 0);
          (vd, v2) = table_add_vertex vd
             (Vertex (radius1_lower * cos angle1) (radius1_lower * sin angle1) z2 nx ny 0);
          (vd, v3) = table_add_vertex vd
             (Vertex (radius2_lower * cos angle2) (radius2_lower * sin angle2) z2 nx ny 0);
          (vd, v4) = table_add_vertex vd
             (Vertex (radius2_upper * cos angle2) (radius2_upper * sin angle2) z1 nx ny 0)
      in (vd, indices @ [(v1, v2, v3), (v1, v3, v4)]))"

text \<open>\<open>tableGeometry\<close>: returns the pair \<open>(ObjectType, geom)\<close>.\<close>

definition tableGeometry :: "shape_args \<Rightarrow> string \<times> geom" where
  "tableGeometry a =
     (let half_height = table_height / 2.0;
          (vd, top_center) = table_add_vertex [] (Vertex 0 0 half_height 0 0 1);
          (vd, bottom_center) = table_add_vertex vd (Vertex 0 0 (- half_height) 0 0 (-1));
          (vd, top_vertices, bottom_vertices) =
             fold (table_rim_step a) [0..<table_segments] (vd, [], []);
          indices = fold (table_top_fan_step top_center top_vertices) [0..<table_segments] [];
          indices = fold (table_bottom_fan_step bottom_center bottom_vertices) [0..<table_segments] indices;
          (vd, indices) =
             fold (\<lambda>h. fold (table_side_step a h) [0..<table_segments]) [0..<table_height_segments]
               (vd, indices)
      in (''Table'', \<lparr>vdata = vd, tris = indices\<rparr>))"

text \<open>\<open>tableDefaults\<close> of \<open>table/config.py\<close>, as the arguments the provider passes on.\<close>

definition tableDefaults_args :: shape_args where
  "tableDefaults_args = \<lparr>segment_count = 9, object_width = 1.2, twist_angle = 10.0,
     twist_groove_depth = 1.0, vertical_wave_freq = 4.0, vertical_wave_depth = 1.0\<rparr>"

section \<open>The hollow (vase) builder\<close>

text \<open>
  The bounding-box trackers start at \<open>float('inf')\<close> and \<open>float('-inf')\<close>, so the tracked
  values and the diameter derived from them are floats that may be infinite (or, after a
  subtraction of infinities, not a number).
\<close>

datatype pyfloat = Fin real | PosInf | NegInf | NaN

text \<open>\<open>a < b\<close> on floats: every comparison with NaN is false.\<close>

fun float_less :: "pyfloat \<Rightarrow> pyfloat \<Rightarrow> bool" where
  "float_less (Fin a) (Fin b) = (a < b)"
| "float_less NaN _ = False"
| "float_less _ NaN = False"
| "float_less NegInf NegInf = False"
| "float_less NegInf _ = True"
| "float_less _ NegInf = False"
| "float_less PosInf _ = False"
| "float_less _ PosInf = True"

text \<open>Python's two-argument \<open>min\<close> and \<open>max\<close> keep the first argument unless the second
  is strictly smaller (larger).\<close>

definition py_min :: "pyfloat \<Rightarrow> pyfloat \<Rightarrow> pyfloat" where
  "py_min a b = (if float_less b a then b else a)"

definition py_max :: "pyfloat \<Rightarrow> pyfloat \<Rightarrow> pyfloat" where
  "py_max a b = (if float_less a b then b else a)"

fun float_sub :: "pyfloat \<Rightarrow> pyfloat \<Rightarrow> pyfloat" where
  "float_sub (Fin a) (Fin b) = Fin (a - b)"
| "float_sub NaN _ = NaN"
| "float_sub _ NaN = NaN"
| "float_sub PosInf PosInf = NaN"
| "float_sub NegInf NegInf = NaN"
| "float_sub PosInf _ = PosInf"
| "float_sub NegInf _ = NegInf"
| "float_sub (Fin a) PosInf = NegInf"
| "float_sub (Fin a) NegInf = PosInf"

record bbox =
  min_x :: pyfloat
  max_x :: pyfloat
  min_y :: pyfloat
  max_y :: pyfloat
  min_z :: pyfloat
  max_z :: pyfloat

definition bbox_init :: bbox where
  "bbox_init = \<lparr>min_x = PosInf, max_x = NegInf, min_y = PosInf, max_y = NegInf,
     min_z = PosInf, max_z = NegInf\<rparr>"

definition vase_height :: real where "vase_height = 7.0"
definition vase_segments :: nat where "vase_segments = 40"
definition vase_height_segments :: nat where "vase_height_segments = 40"

text \<open>\<open>add_vertex\<close> of the vase builder: update the six trackers, append the row, return
  its index.  The state is the vertex data together with the nonlocal trackers.\<close>

definition vase_add_vertex :: "vertex list \<times> bbox \<Rightarrow> vertex \<Rightarrow> (vertex list \<times> bbox) \<times> nat" where
  "vase_add_vertex s v =
     (case s of (vd, bb) \<Rightarrow>
      let bb = bb\<lparr>min_x := py_min (min_x bb) (Fin (vx v)), max_x := py_max (max_x bb) (Fin (vx v))\<rparr>;
          bb = bb\<lparr>min_y := py_min (min_y bb) (Fin (vy v)), max_y := py_max (max_y bb) (Fin (vy v))\<rparr>;
          bb = bb\<lparr>min_z := py_min (min_z bb) (Fin (vz v)), max_z := py_max (max_z bb) (Fin (vz v))\<rparr>;
          vd' = vd @ [v]
      in ((vd', bb), length vd' - 1))"

text \<open>The four cap-ring loops.  Each takes the radius function of its ring, the height of
  the cap and the \<open>z\<close> component of the cap normal.\<close>

definition vase_ring_step ::
  "(real \<Rightarrow> real) \<Rightarrow> real \<Rightarrow> real \<Rightarrow> nat \<Rightarrow> (vertex list \<times> bbox) \<times> nat list \<Rightarrow> (vertex list \<times> bbox) \<times> nat list" where
  "vase_ring_step radius_at z nz i s =
     (case s of (st, ring_vertices) \<Rightarrow>
      let angle = (2.0 * pi * real i) / real vase_segments;
          ring_radius = radius_at angle;
          (st, ring_v) = vase_add_vertex st
             (Vertex (ring_radius * cos angle) (ring_radius * sin angle) z 0 0 nz)
      in (st, ring_vertices @ [ring_v]))"

definition vase_top_cap_step :: "nat list \<Rightarrow> nat list \<Rightarrow> nat \<Rightarrow> triangle list \<Rightarrow> triangle list" where
  "vase_top_cap_step top_outer_vertices top_inner_vertices i indices =
     (let next_i = (i + 1) mod vase_segments
      in indices @
         [(top_outer_vertices ! i, top_inner_vertices ! i, top_inner_vertices ! next_i),
          (top_outer_vertices ! i, top_inner_vertices ! next_i, top_outer_vertices ! next_i)])"

definition vase_bottom_cap_step :: "nat list \<Rightarrow> nat list \<Rightarrow> nat \<Rightarrow> triangle list \<Rightarrow> triangle list" where
  "vase_bottom_cap_step bottom_outer_vertices bottom_inner_vertices i indices =
     (let next_i = (i + 1) mod vase_segments
      in indices @
         [(bottom_outer_vertices ! i, bottom_inner_vertices ! next_i, bottom_inner_vertices ! i),
          (bottom_outer_vertices ! i, bottom_outer_vertices ! next_i, bottom_inner_vertices ! next_i)])"

text \<open>One height band: the vertex loop fills the four per-band lists.\<close>

definition vase_band_vertex_step ::
  "shape_args \<Rightarrow> real \<Rightarrow> nat \<Rightarrow> nat \<Rightarrow>
   (vertex list \<times> bbox) \<times> nat list \<times> nat list \<times> nat list \<times> nat list \<Rightarrow>
   (vertex list \<times> bbox) \<times> nat list \<times> nat list \<times> nat list \<times> nat list" where
  "vase_band_vertex_step a wall_thickness h i s =
     (case s of (st, outer_upper_vertices, outer_lower_vertices, inner_upper_vertices, inner_lower_vertices) \<Rightarrow>
      let half_height = vase_height / 2.0;
          z1 = half_height - (vase_height * real h) / real vase_height_segments;
          z2 = half_height - (vase_height * real (h + 1)) / real vase_height_segments;
          length_ratio1 = 1.0 - (real h / real vase_height_segments);
          length_ratio2 = 1.0 - (real (h + 1) / real vase_height_segments);
          angle = (2.0 * pi * real i) / real vase_segments;
          outer_radius_upper = vase_get_surface_modulation a angle length_ratio1;
          outer_radius_lower = vase_get_surface_modulation a angle length_ratio2;
          inner_radius_upper = get_inner_surface_modulation a wall_thickness angle length_ratio1;
          inner_radius_lower = get_inner_surface_modulation a wall_thickness angle length_ratio2;
          nx = cos angle;
          ny = sin angle;
          (st, outer_upper_v) = vase_add_vertex st
             (Vertex (outer_radius_upper * cos angle) (outer_radius_upper * sin angle) z1 nx ny 0);
          (st, outer_lower_v) = vase_add_vertex st
             (Vertex (outer_radius_lower * cos angle) (outer_radius_lower * sin angle) z2 nx ny 0);
          outer_upper_vertices = outer_upper_vertices @ [outer_upper_v];
          outer_lower_vertices = outer_lower_vertices @ [outer_lower_v];
          (st, inner_upper_v) = vase_add_vertex st
             (Vertex (inner_radius_upper * cos angle) (inner_radius_upper * sin angle) z1 (- nx) (- ny) 0);
          (st, inner_lower_v) = vase_add_vertex st
             (Vertex (inner_radius_lower * cos angle) (inner_radius_lower * sin angle) z2 (- nx) (- ny) 0);
          inner_upper_vertices = inner_upper_vertices @ [inner_upper_v];
          inner_lower_vertices = inner_lower_vertices @ [inner_lower_v]
      in (st, outer_upper_vertices, outer_lower_vertices, inner_upper_vertices, inner_lower_vertices))"

definition vase_outer_quad_step :: "nat list \<Rightarrow> nat list \<Rightarrow> nat \<Rightarrow> triangle list \<Rightarrow> triangle list" where
  "vase_outer_quad_step outer_upper_vertices outer_lower_vertices i indices =
     (let next_i = (i + 1) mod vase_segments
      in indices @
         [(outer_upper_vertices ! i, outer_lower_vertices ! i, outer_lower_vertices ! next_i),
          (outer_upper_vertices ! i, outer_lower_vertices ! next_i, outer_upper_vertices ! next_i)])"

definition vase_inner_quad_step :: "nat list \<Rightarrow> nat list \<Rightarrow> nat \<Rightarrow> triangle list \<Rightarrow> triangle list" where
  "vase_inner_quad_step inner_upper_vertices inner_lower_vertices i indices =
     (let next_i = (i + 1) mod vase_segments
      in indices @
         [(inner_upper_vertices ! i, inner_upper_vertices ! next_i, inner_lower_vertices ! i),
          (inner_lower_vertices ! i, inner_upper_vertices ! next_i, inner_lower_vertices ! next_i)])"

definition vase_wall_step ::
  "nat list \<Rightarrow> nat list \<Rightarrow> nat list \<Rightarrow> nat list \<Rightarrow> nat \<Rightarrow> triangle list \<Rightarrow> triangle list" where
  "vase_wall_step outer_upper_vertices outer_lower_vertices inner_upper_vertices inner_lower_vertices i indices =
     (let next_i = (i + 1) mod vase_segments;
          indices = indices @
            [(outer_upper_vertices ! i, outer_upper_vertices ! next_i, inner_upper_vertices ! i),
             (inner_upper_vertices ! i, outer_upper_vertices ! next_i, inner_upper_vertices ! next_i)];
          indices = indices @
            [(outer_lower_vertices ! i, inner_lower_vertices ! i, outer_lower_vertices ! next_i),
             (inner_lower_vertices ! i, inner_lower_vertices ! next_i, outer_lower_vertices ! next_i)]
      in indices)"

definition vase_band_step ::
  "shape_args \<Rightarrow> real \<Rightarrow> nat \<Rightarrow> (vertex list \<times> bbox) \<times> triangle list \<Rightarrow> (vertex list \<times> bbox) \<times> triangle list" where
  "vase_band_step a wall_thickness h s =
     (case s of (st, indices) \<Rightarrow>
      let (st, outer_upper_vertices, outer_lower_vertices, inner_upper_vertices, inner_lower_vertices) =
             fold (vase_band_vertex_step a wall_thickness h) [0..<vase_segments] (st, [], [], [], []);
          indices = fold (vase_outer_quad_step outer_upper_vertices outer_lower_vertices)
             [0..<vase_segments] indices;
          indices = fold (vase_inner_quad_step inner_upper_vertices inner_lower_vertices)
             [0..<vase_segments] indices;
          indices = fold (vase_wall_step outer_upper_vertices outer_lower_vertices
                            inner_upper_vertices inner_lower_vertices)
             [0..<vase_segments] indices
      in (st, indices))"

text \<open>\<open>vaseGeometry\<close>: returns \<open>(ObjectType, geom, height, diameter)\<close>.  The height returned
  is the local constant \<open>height\<close>; \<open>height_actual\<close> is computed and only printed.\<close>

definition vase_build :: "shape_args \<Rightarrow> real \<Rightarrow> (vertex list \<times> bbox) \<times> triangle list" where
  "vase_build a wall_thickness =
     (let half_height = vase_height / 2.0;
          st = ([], bbox_init);
          (st, top_outer_vertices) =
             fold (vase_ring_step (\<lambda>angle. vase_get_surface_modulation a angle 1.0) half_height 1)
               [0..<vase_segments] (st, []);
          (st, top_inner_vertices) =
             fold (vase_ring_step (\<lambda>angle. get_inner_surface_modulation a wall_thickness angle 1.0) half_height 1)
               [0..<vase_segments] (st, []);
          (st, bottom_outer_vertices) =
             fold (vase_ring_step (\<lambda>angle. vase_get_surface_modulation a angle 0.0) (- half_height) (-1))
               [0..<vase_segments] (st, []);
          (st, bottom_inner_vertices) =
             fold (vase_ring_step (\<lambda>angle. get_inner_surface_modulation a wall_thickness angle 0.0) (- half_height) (-1))
               [0..<vase_segments] (st, []);
          indices = fold (vase_top_cap_step top_outer_vertices top_inner_vertices) [0..<vase_segments] [];
          indices = fold (vase_bottom_cap_step bottom_outer_vertices bottom_inner_vertices)
             [0..<vase_segments] indices
      in fold (vase_band_step a wall_thickness) [0..<vase_height_segments] (st, indices))"

definition vaseGeometry :: "shape_args \<Rightarrow> real \<Rightarrow> string \<times> geom \<times> real \<times> pyfloat" where
  "vaseGeometry a wall_thickness =
     (case vase_build a wall_thickness of ((vd, bb), indices) \<Rightarrow>
      let diameter = float_sub (max_x bb) (min_x bb);
          height_actual = float_sub (max_z bb) (min_z bb)
      in (''Vase'', \<lparr>vdata = vd, tris = indices\<rparr>, vase_height, diameter))"

text \<open>The value of \<open>height_actual\<close>, which the source prints.\<close>

definition vase_height_actual :: "shape_args \<Rightarrow> real \<Rightarrow> pyfloat" where
  "vase_height_actual a wall_thickness =
     (case vase_build a wall_thickness of ((vd, bb), indices) \<Rightarrow> float_sub (max_z bb) (min_z bb))"

text \<open>The extent of the \<open>y\<close> trackers, \<open>max_y - min_y\<close>.  \<open>add_vertex\<close> updates both
  trackers at every row, but the only line of \<open>vaseGeometry\<close> that reads them
  (\<open>depth = max_y - min_y\<close>) is commented out: the value is not part of what the builder
  returns.  It is defined here to be compared with the diameter.\<close>

definition vase_depth_tracked :: "shape_args \<Rightarrow> real \<Rightarrow> pyfloat" where
  "vase_depth_tracked a wall_thickness =
     (case vase_build a wall_thickness of ((vd, bb), indices) \<Rightarrow> float_sub (max_y bb) (min_y bb))"

section \<open>Geometry providers and their cache\<close>

datatype py_error = KeyError string | ValueError string | AttributeError string

text \<open>Sequencing of computations that may raise.\<close>

definition err_bind :: "py_error + 'a \<Rightarrow> ('a \<Rightarrow> py_error + 'b) \<Rightarrow> py_error + 'b" where
  "err_bind m f = (case m of Inl e \<Rightarrow> Inl e | Inr x \<Rightarrow> f x)"

text \<open>A parameter dictionary; \<open>params[name]\<close> raises \<open>KeyError\<close> on a missing name.  The
  values are finite floats, modelled as reals.  A value that is NaN or infinite, or so large
  that a product formed from it overflows, is not represented: on such values \<open>int\<close> raises
  \<open>ValueError\<close> or \<open>OverflowError\<close> and \<open>math.cos\<close> raises \<open>ValueError\<close> (with messages of
  their own), and these exceptions are not among the errors of the model.\<close>

type_synonym params = "string \<rightharpoonup> real"

definition param_get :: "params \<Rightarrow> string \<Rightarrow> py_error + real" where
  "param_get ps name = (case ps name of None \<Rightarrow> Inl (KeyError name) | Some v \<Rightarrow> Inr v)"

text \<open>\<open>int(x)\<close> truncates towards zero; \<open>round(x, n)\<close> rounds to \<open>n\<close> decimals, halves
  to the even neighbour.  Both are total on finite values.\<close>

definition py_int :: "real \<Rightarrow> int" where
  "py_int x = (if 0 \<le> x then \<lfloor>x\<rfloor> else \<lceil>x\<rceil>)"

definition round_half_even :: "real \<Rightarrow> int" where
  "round_half_even x =
     (let f = \<lfloor>x\<rfloor>; d = x - of_int f
      in if d < 1 / 2 then f else if 1 / 2 < d then f + 1 else if even f then f else f + 1)"

definition py_round :: "real \<Rightarrow> nat \<Rightarrow> real" where
  "py_round x ndigits = of_int (round_half_even (x * 10 ^ ndigits)) / 10 ^ ndigits"

record GeometryResult =
  object_type :: string
  geometry :: geom
  height :: real
  diameter :: "pyfloat option"

record CachedGeometry =
  geometry_result :: GeometryResult
  timestamp :: real
  access_count :: nat

definition GEOMETRY_CACHE_SIZE :: nat where "GEOMETRY_CACHE_SIZE = 128"
definition DISPLAY_CACHE_SIZE :: nat where "DISPLAY_CACHE_SIZE = 64"
definition PARAMETER_UPDATE_DEBOUNCE :: real where "PARAMETER_UPDATE_DEBOUNCE = 100"

text \<open>
  The cache key is \<open>str(sorted(rounded_params.items()))\<close>; it is modelled by the sorted
  item list itself, the integer segment count embedded in the reals.  The dictionary
  literal reads the six parameters in the order written, so that is the order in which a
  missing one is reported; the items are then listed in the order of their names.
\<close>

type_synonym cache_key = "(string \<times> real) list"

definition create_cache_key :: "params \<Rightarrow> py_error + cache_key" where
  "create_cache_key ps =
     err_bind (param_get ps ''Segment Count'') (\<lambda>sc.
     err_bind (param_get ps ''Object Width'') (\<lambda>ow.
     err_bind (param_get ps ''Twist Angle'') (\<lambda>ta.
     err_bind (param_get ps ''Twist Groove Depth'') (\<lambda>tgd.
     err_bind (param_get ps ''Vertical Wave Frequency'') (\<lambda>vwf.
     err_bind (param_get ps ''Vertical Wave Depth'') (\<lambda>vwd.
       Inr [(''Object Width'', py_round ow 2),
            (''Segment Count'', of_int (py_int sc)),
            (''Twist Angle'', py_round ta 2),
            (''Twist Groove Depth'', py_round tgd 3),
            (''Vertical Wave Depth'', py_round vwd 3),
            (''Vertical Wave Frequency'', py_round vwf 2)]))))))"

text \<open>The keyword arguments a provider passes to its builder.\<close>

definition builder_args :: "params \<Rightarrow> py_error + shape_args" where
  "builder_args ps =
     err_bind (param_get ps ''Segment Count'') (\<lambda>sc.
     err_bind (param_get ps ''Object Width'') (\<lambda>ow.
     err_bind (param_get ps ''Twist Angle'') (\<lambda>ta.
     err_bind (param_get ps ''Twist Groove Depth'') (\<lambda>tgd.
     err_bind (param_get ps ''Vertical Wave Frequency'') (\<lambda>vwf.
     err_bind (param_get ps ''Vertical Wave Depth'') (\<lambda>vwd.
       Inr \<lparr>segment_count = py_int sc, object_width = ow, twist_angle = ta,
            twist_groove_depth = tgd, vertical_wave_freq = vwf, vertical_wave_depth = vwd\<rparr>))))))"

text \<open>What a builder returns: the table builder a pair, the vase builder a 4-tuple;
  \<open>_extract_result\<close> also accepts a bare geometry.\<close>

datatype builder_result =
    Tuple2 string geom
  | Tuple4 string geom real pyfloat
  | NotTuple geom

fun extract_result :: "builder_result \<Rightarrow> string \<Rightarrow> GeometryResult" where
  "extract_result (Tuple2 actual_type g) default_type =
     \<lparr>object_type = actual_type, geometry = g, height = 2.0, diameter = None\<rparr>"
| "extract_result (Tuple4 actual_type g h d) default_type =
     \<lparr>object_type = actual_type, geometry = g, height = h, diameter = Some d\<rparr>"
| "extract_result (NotTuple g) default_type =
     \<lparr>object_type = default_type, geometry = g, height = 2.0, diameter = None\<rparr>"

text \<open>
  A provider: its cache (a Python dictionary, kept as an association list in insertion
  order with unique keys: \<^const>\<open>map_of\<close> reads, \<^const>\<open>AList.update\<close> assigns in place or
  appends, \<^const>\<open>AList.delete\<close> removes), the two counters, and the log of the calls made
  to the mesh builder (the arguments passed).
\<close>

record provider_state =
  geometry_cache :: "(cache_key \<times> CachedGeometry) list"
  cache_hits :: nat
  cache_misses :: nat
  builder_calls :: "shape_args list"

definition provider_init :: provider_state where
  "provider_init = \<lparr>geometry_cache = [], cache_hits = 0, cache_misses = 0, builder_calls = []\<rparr>"

text \<open>\<open>min(cache.keys(), key=lambda k: cache[k].timestamp)\<close>: a scan that keeps the first
  entry of least timestamp (the keys of a dictionary are unique, so \<open>cache[k]\<close> is the
  entry listed with \<open>k\<close>).\<close>

fun oldest_entry ::
  "cache_key \<times> CachedGeometry \<Rightarrow> (cache_key \<times> CachedGeometry) list \<Rightarrow> cache_key \<times> CachedGeometry" where
  "oldest_entry best [] = best"
| "oldest_entry best (e # es) =
     oldest_entry (if timestamp (snd e) < timestamp (snd best) then e else best) es"

text \<open>\<open>_cache_geometry\<close>.  The scan of an empty cache would raise, but the scan only runs
  on a cache of at least \<open>GEOMETRY_CACHE_SIZE\<close> entries.\<close>

definition cache_geometry ::
  "real \<Rightarrow> cache_key \<Rightarrow> GeometryResult \<Rightarrow> (cache_key \<times> CachedGeometry) list \<Rightarrow> (cache_key \<times> CachedGeometry) list" where
  "cache_geometry now key gr cache =
     (let cache =
            (if length cache \<ge> GEOMETRY_CACHE_SIZE
             then (case cache of [] \<Rightarrow> cache
                   | e # es \<Rightarrow> AList.delete (fst (oldest_entry e es)) cache)
             else cache)
      in AList.update key \<lparr>geometry_result = gr, timestamp = now, access_count = 0\<rparr> cache)"

text \<open>
  \<open>create_geometry\<close>, written once for the two provider classes, whose methods differ
  only in the builder called and the fallback type name.  \<open>now\<close> is the reading of
  \<open>time.time()\<close> made by the call.  On the finite parameter values of the model the
  conversions and the builder do not raise, so the only exception that leaves this function
  here is the \<open>KeyError\<close> of a missing parameter.
\<close>

definition provider_create_geometry ::
  "(shape_args \<Rightarrow> builder_result) \<Rightarrow> string \<Rightarrow> real \<Rightarrow> params \<Rightarrow> provider_state
     \<Rightarrow> (py_error + GeometryResult) \<times> provider_state" where
  "provider_create_geometry builder default_type now ps s =
     (case create_cache_key ps of
        Inl e \<Rightarrow> (Inl e, s)
      | Inr cache_key \<Rightarrow>
         (case map_of (geometry_cache s) cache_key of
            Some cached \<Rightarrow>
              (let s = s\<lparr>cache_hits := cache_hits s + 1\<rparr>;
                   cached = cached\<lparr>access_count := access_count cached + 1\<rparr>;
                   cached = cached\<lparr>timestamp := now\<rparr>;
                   s = s\<lparr>geometry_cache := AList.update cache_key cached (geometry_cache s)\<rparr>
               in (Inr (geometry_result cached), s))
          | None \<Rightarrow>
              (let s = s\<lparr>cache_misses := cache_misses s + 1\<rparr>
               in case builder_args ps of
                    Inl e \<Rightarrow> (Inl e, s)
                  | Inr a \<Rightarrow>
                     (let result = builder a;
                          s = s\<lparr>builder_calls := builder_calls s @ [a]\<rparr>;
                          geom_result = extract_result result default_type;
                          s = s\<lparr>geometry_cache := cache_geometry now cache_key geom_result (geometry_cache s)\<rparr>
                      in (Inr geom_result, s)))))"

text \<open>The vase provider calls \<open>vaseGeometry\<close> with six keyword arguments, so the seventh,
  \<open>wall_thickness\<close>, takes its default \<open>0.5\<close>.\<close>

definition vase_builder :: "shape_args \<Rightarrow> builder_result" where
  "vase_builder a = (case vaseGeometry a 0.5 of (t, g, h, d) \<Rightarrow> Tuple4 t g h d)"

definition table_builder :: "shape_args \<Rightarrow> builder_result" where
  "table_builder a = (case tableGeometry a of (t, g) \<Rightarrow> Tuple2 t g)"

definition vase_create_geometry ::
  "real \<Rightarrow> params \<Rightarrow> provider_state \<Rightarrow> (py_error + GeometryResult) \<times> provider_state" where
  "vase_create_geometry = provider_create_geometry vase_builder ''Vace''"

definition table_create_geometry ::
  "real \<Rightarrow> params \<Rightarrow> provider_state \<Rightarrow> (py_error + GeometryResult) \<times> provider_state" where
  "table_create_geometry = provider_create_geometry table_builder ''Table''"

section \<open>Scene objects, display manager and creation service\<close>

type_synonym vec3 = "real \<times> real \<times> real"

text \<open>A \<open>GeomNode\<close> and the \<open>NodePath\<close> under which it is attached to the scene.\<close>

record geom_node =
  node_name :: string
  node_geoms :: "geom list"

record scene_object =
  np_node :: geom_node
  np_pos :: vec3
  np_scale :: real

record ObjectCreationRequest =
  req_params :: params
  req_object_type :: string
  position :: vec3
  scale :: real

text \<open>\<open>ObjectFactory\<close>: \<open>render\<close> is \<open>None\<close> until the application assigns the scene
  root; the nodes attached to it are the factory's visible effect.\<close>

record factory_state =
  render_assigned :: bool
  node_pool :: "geom_node list"
  attached :: "scene_object list"

definition create_scene_object ::
  "ObjectCreationRequest \<Rightarrow> GeometryResult \<Rightarrow> factory_state \<Rightarrow> (py_error + scene_object) \<times> factory_state" where
  "create_scene_object request gr fs =
     (let (node, fs) =
            (if node_pool fs \<noteq> []
             then ((last (node_pool fs))\<lparr>node_geoms := []\<rparr>, fs\<lparr>node_pool := butlast (node_pool fs)\<rparr>)
             else (\<lparr>node_name = ''object_'' @ req_object_type request, node_geoms = []\<rparr>, fs));
          node = node\<lparr>node_geoms := node_geoms node @ [geometry gr]\<rparr>
      in if \<not> render_assigned fs then (Inl (AttributeError ''attachNewNode''), fs)
         else (let object_np = \<lparr>np_node = node, np_pos = position request, np_scale = scale request\<rparr>
               in (Inr object_np, fs\<lparr>attached := attached fs @ [object_np]\<rparr>)))"

text \<open>The display data dictionary: \<open>'ui_metrics'\<close> is \<open>None\<close> or one of two dictionaries,
  \<open>'camera_distance'\<close> is \<open>None\<close> or a float, \<open>'timestamp'\<close> is set when the data is cached.\<close>

datatype metrics = DiameterHeight pyfloat real | BoundsMetrics real real real

record display_data =
  dd_ui_metrics :: "metrics option"
  dd_camera_distance :: "real option"
  dd_timestamp :: "real option"

datatype ui_call = ShowDiameterHeight pyfloat real | ShowBounds real real real

datatype camera_call = SetOptimalView real "pyfloat option"

text \<open>
  \<open>OptimizedMainObjectDisplayManager\<close>: its three attributes, whether the two collaborators
  are present, and the calls made to them (its effect on the UI and the camera).  The
  display cache key \<open>f"{object_type}_{height}_{diameter}"\<close> is modelled by the triple.
\<close>

type_synonym display_key = "string \<times> real \<times> pyfloat option"

record display_state =
  has_ui_metrics :: bool
  has_camera_controller :: bool
  last_update_time :: real
  pending_updates :: nat
  display_cache :: "(display_key \<times> display_data) list"
  ui_calls :: "ui_call list"
  camera_calls :: "camera_call list"

definition create_display_cache_key :: "GeometryResult \<Rightarrow> display_key" where
  "create_display_cache_key gr = (object_type gr, height gr, diameter gr)"

text \<open>\<open>_calculate_display_data\<close>; \<open>bounds\<close> is what \<open>object_np.getBounds()\<close> answers, \<open>None\<close>
  for empty bounds.\<close>

definition calculate_display_data ::
  "(vec3 \<times> vec3) option \<Rightarrow> GeometryResult \<Rightarrow> display_state \<Rightarrow> display_data" where
  "calculate_display_data bounds gr s =
     (let display_data = \<lparr>dd_ui_metrics = None, dd_camera_distance = None, dd_timestamp = None\<rparr>;
          display_data =
            (if has_ui_metrics s then
               (case diameter gr of
                  Some d \<Rightarrow> display_data\<lparr>dd_ui_metrics := Some (DiameterHeight d (height gr))\<rparr>
                | None \<Rightarrow>
                   (case bounds of
                      None \<Rightarrow> display_data
                    | Some ((minx, miny, minz), (maxx, maxy, maxz)) \<Rightarrow>
                        display_data\<lparr>dd_ui_metrics :=
                          Some (BoundsMetrics (maxx - minx) (maxz - minz) (maxy - miny))\<rparr>))
             else display_data);
          display_data =
            (if has_camera_controller s then display_data\<lparr>dd_camera_distance := Some (height gr)\<rparr>
             else display_data)
      in display_data)"

text \<open>\<open>min(..., key=lambda k: cache[k].get('timestamp', 0))\<close> over the display cache.\<close>

definition dd_stamp :: "display_data \<Rightarrow> real" where
  "dd_stamp d = (case dd_timestamp d of None \<Rightarrow> 0 | Some t \<Rightarrow> t)"

fun oldest_display ::
  "display_key \<times> display_data \<Rightarrow> (display_key \<times> display_data) list \<Rightarrow> display_key \<times> display_data" where
  "oldest_display best [] = best"
| "oldest_display best (e # es) =
     oldest_display (if dd_stamp (snd e) < dd_stamp (snd best) then e else best) es"

definition cache_display_data ::
  "real \<Rightarrow> display_key \<Rightarrow> display_data \<Rightarrow> (display_key \<times> display_data) list
     \<Rightarrow> display_data \<times> (display_key \<times> display_data) list" where
  "cache_display_data now key data cache =
     (let cache =
            (if length cache \<ge> DISPLAY_CACHE_SIZE
             then (case cache of [] \<Rightarrow> cache
                   | e # es \<Rightarrow> AList.delete (fst (oldest_display e es)) cache)
             else cache);
          data = data\<lparr>dd_timestamp := Some now\<rparr>
      in (data, AList.update key data cache))"

text \<open>Truth value of a float: zero is false, everything else (infinities, NaN) true.\<close>

definition float_truthy :: "pyfloat \<Rightarrow> bool" where
  "float_truthy x = (x \<noteq> Fin 0)"

text \<open>\<open>_apply_display_data\<close>: the calls to the UI metrics and to the camera controller.\<close>

definition apply_display_data :: "display_data \<Rightarrow> display_state \<Rightarrow> display_state" where
  "apply_display_data display_data s =
     (let s =
            (if has_ui_metrics s then
               (case dd_ui_metrics display_data of
                  None \<Rightarrow> s
                | Some (DiameterHeight d h) \<Rightarrow> s\<lparr>ui_calls := ui_calls s @ [ShowDiameterHeight d h]\<rparr>
                | Some (BoundsMetrics w h d) \<Rightarrow> s\<lparr>ui_calls := ui_calls s @ [ShowBounds w h d]\<rparr>)
             else s)
      in if has_camera_controller s then
           (case dd_camera_distance display_data of
              None \<Rightarrow> s
            | Some distance \<Rightarrow>
               if distance = 0 then s
               else (case dd_ui_metrics display_data of
                       Some (DiameterHeight d h) \<Rightarrow>
                         if float_truthy d
                         then s\<lparr>camera_calls := camera_calls s @ [SetOptimalView distance (Some d)]\<rparr>
                         else s\<lparr>camera_calls := camera_calls s @ [SetOptimalView distance None]\<rparr>
                     | _ \<Rightarrow> s\<lparr>camera_calls := camera_calls s @ [SetOptimalView distance None]\<rparr>))
         else s)"

text \<open>\<open>update_display\<close>.  \<open>current_time\<close> is the reading of \<open>time.time()\<close> at entry,
  \<open>cache_time\<close> the later reading made when new display data is cached.\<close>

definition update_display ::
  "real \<Rightarrow> real \<Rightarrow> (vec3 \<times> vec3) option \<Rightarrow> GeometryResult \<Rightarrow> display_state \<Rightarrow> display_state" where
  "update_display current_time cache_time bounds gr s =
     (if current_time - last_update_time s < PARAMETER_UPDATE_DEBOUNCE / 1000.0
      then s\<lparr>pending_updates := pending_updates s + 1\<rparr>
      else
        (let s = (if pending_updates s > 0 then s\<lparr>pending_updates := 0\<rparr> else s);
             cache_key = create_display_cache_key gr;
             s = (case map_of (display_cache s) cache_key of
                    Some cached_data \<Rightarrow> apply_display_data cached_data s
                  | None \<Rightarrow>
                     (let display_data = calculate_display_data bounds gr s;
                          (display_data, cache) =
                             cache_display_data cache_time cache_key display_data (display_cache s);
                          s = s\<lparr>display_cache := cache\<rparr>
                      in apply_display_data display_data s))
         in s\<lparr>last_update_time := current_time\<rparr>))"

text \<open>\<open>OptimizedObjectCreationService\<close>: the two registered providers, the factory, the
  display manager and the performance samples.\<close>

record service_state =
  vase_provider :: provider_state
  table_provider :: provider_state
  scene_factory :: factory_state
  display_manager :: display_state
  creation_times :: "real list"
  total_creations :: nat

datatype provider_kind = VaseProvider | TableProvider

text \<open>\<open>self.geometry_providers.get(object_type)\<close> on the dictionary built in \<open>__init__\<close>,
  whose keys are \<open>"Vace"\<close> and \<open>"Table"\<close>.\<close>

definition geometry_providers_get :: "string \<Rightarrow> provider_kind option" where
  "geometry_providers_get t =
     (if t = ''Vace'' then Some VaseProvider else if t = ''Table'' then Some TableProvider else None)"

text \<open>The readings of \<open>time.time()\<close> one \<open>create_object\<close> call can make, in order.\<close>

record clock =
  t_start :: real
  t_geometry :: real
  t_display :: real
  t_display_cache :: real
  t_end :: real

text \<open>\<open>create_object\<close>.  \<open>get_bounds\<close> stands for the engine's \<open>getBounds()\<close> of a scene
  object.  A raised exception leaves the state as it was when raised.\<close>

definition create_object ::
  "(scene_object \<Rightarrow> (vec3 \<times> vec3) option) \<Rightarrow> clock \<Rightarrow> ObjectCreationRequest \<Rightarrow> service_state
     \<Rightarrow> (py_error + scene_object) \<times> service_state" where
  "create_object get_bounds clk request s =
     (let start_time = t_start clk
      in case geometry_providers_get (req_object_type request) of
           None \<Rightarrow> (Inl (ValueError (''Unsupported object type: '' @ req_object_type request)), s)
         | Some provider \<Rightarrow>
            (let (r, s) =
                   (case provider of
                      VaseProvider \<Rightarrow>
                        (case vase_create_geometry (t_geometry clk) (req_params request) (vase_provider s) of
                           (r, p) \<Rightarrow> (r, s\<lparr>vase_provider := p\<rparr>))
                    | TableProvider \<Rightarrow>
                        (case table_create_geometry (t_geometry clk) (req_params request) (table_provider s) of
                           (r, p) \<Rightarrow> (r, s\<lparr>table_provider := p\<rparr>)))
             in case r of
                  Inl e \<Rightarrow> (Inl e, s)
                | Inr geom_result \<Rightarrow>
                   (case create_scene_object request geom_result (scene_factory s) of
                      (Inl e, fs) \<Rightarrow> (Inl e, s\<lparr>scene_factory := fs\<rparr>)
                    | (Inr scene_obj, fs) \<Rightarrow>
                       (let s = s\<lparr>scene_factory := fs\<rparr>;
                            s = (if position request = (0, 0, 0)
                                 then s\<lparr>display_manager :=
                                        update_display (t_display clk) (t_display_cache clk)
                                          (get_bounds scene_obj) geom_result (display_manager s)\<rparr>
                                 else s);
                            creation_time = t_end clk - start_time;
                            s = s\<lparr>creation_times := creation_times s @ [creation_time]\<rparr>;
                            s = s\<lparr>total_creations := total_creations s + 1\<rparr>;
                            s = (if length (creation_times s) > 100
                                 then s\<lparr>creation_times := tl (creation_times s)\<rparr> else s)
                        in (Inr scene_obj, s)))))"

section \<open>Index lists in closed form\<close>

text \<open>The two triangles of a table side quad whose first fresh row is \<open>b\<close>, and the whole
  triangle list of a table mesh with \<open>n\<close> angular steps and \<open>m\<close> height bands: top fan,
  bottom fan, then the side quads band by band.\<close>

definition table_quad :: "nat \<Rightarrow> triangle list" where
  "table_quad b = [(b, b + 1, b + 2), (b, b + 2, b + 3)]"

definition table_tris :: "nat \<Rightarrow> nat \<Rightarrow> triangle list" where
  "table_tris n m =
     map (\<lambda>i. (0, 2 + 2 * i, 2 + 2 * ((i + 1) mod n))) [0..<n]
     @ map (\<lambda>i. (1, 3 + 2 * ((i + 1) mod n), 3 + 2 * i)) [0..<n]
     @ concat (map (\<lambda>h. concat (map (\<lambda>i. table_quad (2 + 2 * n + 4 * n * h + 4 * i)) [0..<n])) [0..<m])"

section \<open>Initial states and sample inputs\<close>

text \<open>\<open>vaseDefaults\<close> and \<open>tableDefaults\<close> of the two \<open>config.py\<close> files.\<close>

definition vaseDefaults :: params where
  "vaseDefaults = [''Segment Count'' \<mapsto> 5, ''Object Width'' \<mapsto> 2.5, ''Twist Angle'' \<mapsto> 20.0,
     ''Twist Groove Depth'' \<mapsto> 1.0, ''Vertical Wave Frequency'' \<mapsto> 3.0,
     ''Vertical Wave Depth'' \<mapsto> 1.0]"

definition tableDefaults :: params where
  "tableDefaults = [''Segment Count'' \<mapsto> 9, ''Object Width'' \<mapsto> 1.2, ''Twist Angle'' \<mapsto> 10.0,
     ''Twist Groove Depth'' \<mapsto> 1.0, ''Vertical Wave Frequency'' \<mapsto> 4.0,
     ''Vertical Wave Depth'' \<mapsto> 1.0]"

text \<open>The six parameter names a provider reads.\<close>

definition param_names :: "string list" where
  "param_names = [''Segment Count'', ''Object Width'', ''Twist Angle'', ''Twist Groove Depth'',
     ''Vertical Wave Frequency'', ''Vertical Wave Depth'']"

text \<open>The states the constructors build: an empty factory whose \<open>render\<close> the application
  has assigned, a display manager with UI metrics and (at first) no camera controller, and
  the service holding two fresh providers.\<close>

definition factory_init :: factory_state where
  "factory_init = \<lparr>render_assigned = True, node_pool = [], attached = []\<rparr>"

definition display_init :: "bool \<Rightarrow> bool \<Rightarrow> display_state" where
  "display_init ui cam = \<lparr>has_ui_metrics = ui, has_camera_controller = cam, last_update_time = 0,
     pending_updates = 0, display_cache = [], ui_calls = [], camera_calls = []\<rparr>"

definition service_init :: service_state where
  "service_init = \<lparr>vase_provider = provider_init, table_provider = provider_init,
     scene_factory = factory_init, display_manager = display_init True False,
     creation_times = [], total_creations = 0\<rparr>"

text \<open>Sample inputs: a geometry result, a clock and two requests.\<close>

definition sample_result :: GeometryResult where
  "sample_result = \<lparr>object_type = ''Vase'', geometry = \<lparr>vdata = [], tris = []\<rparr>, height = 7,
     diameter = Some (Fin 5)\<rparr>"

definition sample_clock :: clock where
  "sample_clock = \<lparr>t_start = 1000, t_geometry = 1000, t_display = 1000, t_display_cache = 1000,
     t_end = 1001\<rparr>"

definition sample_request :: "string \<Rightarrow> ObjectCreationRequest" where
  "sample_request kind = \<lparr>req_params = vaseDefaults, req_object_type = kind,
     position = (0, 0, 0), scale = 1.0\<rparr>"

text \<open>The cache key of the vase defaults, and the builder arguments made from them.\<close>

definition vase_default_key :: cache_key where
  "vase_default_key = [(''Object Width'', 2.5), (''Segment Count'', 5), (''Twist Angle'', 20),
     (''Twist Groove Depth'', 1), (''Vertical Wave Depth'', 1), (''Vertical Wave Frequency'', 3)]"

definition vaseDefaults_args :: shape_args where
  "vaseDefaults_args = \<lparr>segment_count = 5, object_width = 2.5, twist_angle = 20.0,
     twist_groove_depth = 1.0, vertical_wave_freq = 3.0, vertical_wave_depth = 1.0\<rparr>"

text \<open>A sequence of \<open>create_geometry\<close> calls on one provider, each with its clock reading
  and its parameters; a call that raises leaves the state it returns.\<close>

fun create_all ::
  "(real \<Rightarrow> params \<Rightarrow> provider_state \<Rightarrow> (py_error + GeometryResult) \<times> provider_state)
    \<Rightarrow> (real \<times> params) list \<Rightarrow> provider_state \<Rightarrow> provider_state" where
  "create_all create [] s = s"
| "create_all create (c # cs) s = create_all create cs (snd (create (fst c) (snd c) s))"

text \<open>Sample parameter sets with pairwise distinct keys: the vase defaults with segment
  count \<open>i\<close>, requested at time \<open>i\<close>; and the key of the \<open>i\<close>-th.\<close>

definition count_params :: "nat \<Rightarrow> params" where
  "count_params i = vaseDefaults(''Segment Count'' \<mapsto> real i)"

definition count_key :: "nat \<Rightarrow> cache_key" where
  "count_key i = [(''Object Width'', 2.5), (''Segment Count'', real i), (''Twist Angle'', 20),
     (''Twist Groove Depth'', 1), (''Vertical Wave Depth'', 1), (''Vertical Wave Frequency'', 3)]"

definition distinct_calls :: "nat \<Rightarrow> (real \<times> params) list" where
  "distinct_calls n = map (\<lambda>i. (real i, count_params i)) [0..<n]"

section \<open>The vase mesh in closed form\<close>

text \<open>The tightest axis-aligned box of a list of vertex rows: what the six trackers of
  \<open>add_vertex\<close> hold once those rows have been written.\<close>

definition bbox_of :: "vertex list \<Rightarrow> bbox" where
  "bbox_of vd =
     (if vd = [] then bbox_init
      else \<lparr>min_x = Fin (Min (vx ` set vd)), max_x = Fin (Max (vx ` set vd)),
            min_y = Fin (Min (vy ` set vd)), max_y = Fin (Max (vy ` set vd)),
            min_z = Fin (Min (vz ` set vd)), max_z = Fin (Max (vz ` set vd))\<rparr>)"

text \<open>The rows written by the vase builder, in closed form: the \<open>i\<close>-th row of a cap ring,
  the two heights of band \<open>h\<close>, the four rows written for column \<open>i\<close> of band \<open>h\<close>.\<close>

definition vase_ring_vertex :: "(real \<Rightarrow> real) \<Rightarrow> real \<Rightarrow> real \<Rightarrow> nat \<Rightarrow> vertex" where
  "vase_ring_vertex radius_at z nz i =
     (let angle = (2.0 * pi * real i) / real vase_segments
      in Vertex (radius_at angle * cos angle) (radius_at angle * sin angle) z 0 0 nz)"

definition vase_band_z1 :: "nat \<Rightarrow> real" where
  "vase_band_z1 h = vase_height / 2.0 - (vase_height * real h) / real vase_height_segments"

definition vase_band_z2 :: "nat \<Rightarrow> real" where
  "vase_band_z2 h = vase_height / 2.0 - (vase_height * real (h + 1)) / real vase_height_segments"

definition vase_band_vertices :: "shape_args \<Rightarrow> real \<Rightarrow> nat \<Rightarrow> nat \<Rightarrow> vertex list" where
  "vase_band_vertices a wall_thickness h i =
     (let length_ratio1 = 1.0 - (real h / real vase_height_segments);
          length_ratio2 = 1.0 - (real (h + 1) / real vase_height_segments);
          angle = (2.0 * pi * real i) / real vase_segments;
          outer_radius_upper = vase_get_surface_modulation a angle length_ratio1;
          outer_radius_lower = vase_get_surface_modulation a angle length_ratio2;
          inner_radius_upper = get_inner_surface_modulation a wall_thickness angle length_ratio1;
          inner_radius_lower = get_inner_surface_modulation a wall_thickness angle length_ratio2
      in [Vertex (outer_radius_upper * cos angle) (outer_radius_upper * sin angle) (vase_band_z1 h)
            (cos angle) (sin angle) 0,
          Vertex (outer_radius_lower * cos angle) (outer_radius_lower * sin angle) (vase_band_z2 h)
            (cos angle) (sin angle) 0,
          Vertex (inner_radius_upper * cos angle) (inner_radius_upper * sin angle) (vase_band_z1 h)
            (- cos angle) (- sin angle) 0,
          Vertex (inner_radius_lower * cos angle) (inner_radius_lower * sin angle) (vase_band_z2 h)
            (- cos angle) (- sin angle) 0])"

text \<open>The triangles of a vase mesh with \<open>n\<close> angular steps: a band whose first fresh row is
  \<open>b\<close> (outer quads, inner quads, then the upper and lower wall faces), the two annular caps,
  and the whole list for \<open>m\<close> bands.\<close>

definition vase_band_tris :: "nat \<Rightarrow> nat \<Rightarrow> triangle list" where
  "vase_band_tris n b =
     concat (map (\<lambda>i. [(b + 4 * i, b + 4 * i + 1, b + 4 * ((i + 1) mod n) + 1),
                        (b + 4 * i, b + 4 * ((i + 1) mod n) + 1, b + 4 * ((i + 1) mod n))]) [0..<n])
     @ concat (map (\<lambda>i. [(b + 4 * i + 2, b + 4 * ((i + 1) mod n) + 2, b + 4 * i + 3),
                          (b + 4 * i + 3, b + 4 * ((i + 1) mod n) + 2, b + 4 * ((i + 1) mod n) + 3)]) [0..<n])
     @ concat (map (\<lambda>i. [(b + 4 * i, b + 4 * ((i + 1) mod n), b + 4 * i + 2),
                          (b + 4 * i + 2, b + 4 * ((i + 1) mod n), b + 4 * ((i + 1) mod n) + 2),
                          (b + 4 * i + 1, b + 4 * i + 3, b + 4 * ((i + 1) mod n) + 1),
                          (b + 4 * i + 3, b + 4 * ((i + 1) mod n) + 3, b + 4 * ((i + 1) mod n) + 1)]) [0..<n])"

definition vase_cap_tris :: "nat \<Rightarrow> triangle list" where
  "vase_cap_tris n =
     concat (map (\<lambda>i. [(i, n + i, n + (i + 1) mod n), (i, n + (i + 1) mod n, (i + 1) mod n)]) [0..<n])
     @ concat (map (\<lambda>i. [(2 * n + i, 3 * n + (i + 1) mod n, 3 * n + i),
                          (2 * n + i, 2 * n + (i + 1) mod n, 3 * n + (i + 1) mod n)]) [0..<n])"

definition vase_tris :: "nat \<Rightarrow> nat \<Rightarrow> triangle list" where
  "vase_tris n m =
     vase_cap_tris n @ concat (map (\<lambda>h. vase_band_tris n (4 * n + 4 * n * h)) [0..<m])"

text \<open>All vertex rows of a vase mesh, in the order written.\<close>

definition vase_vertices :: "shape_args \<Rightarrow> real \<Rightarrow> vertex list" where
  "vase_vertices a wt =
     map (vase_ring_vertex (\<lambda>angle. vase_get_surface_modulation a angle 1.0) (vase_height / 2.0) 1)
       [0..<vase_segments]
     @ map (vase_ring_vertex (\<lambda>angle. get_inner_surface_modulation a wt angle 1.0) (vase_height / 2.0) 1)
       [0..<vase_segments]
     @ map (vase_ring_vertex (\<lambda>angle. vase_get_surface_modulation a angle 0.0) (- (vase_height / 2.0)) (-1))
       [0..<vase_segments]
     @ map (vase_ring_vertex (\<lambda>angle. get_inner_surface_modulation a wt angle 0.0) (- (vase_height / 2.0)) (-1))
       [0..<vase_segments]
     @ concat (map (\<lambda>h. concat (map (vase_band_vertices a wt h) [0..<vase_segments]))
         [0..<vase_height_segments])"

section \<open>Edge sharing\<close>

text \<open>A triangle has the edge \<open>{u, v}\<close> when both indices are among its three; the number
  of triangles of a mesh sharing an edge; the three directed edges of a triangle in its
  winding order; a triangle with three different corners.\<close>

definition tri_has_edge :: "nat \<Rightarrow> nat \<Rightarrow> triangle \<Rightarrow> bool" where
  "tri_has_edge u v t = (case t of (a, b, c) \<Rightarrow> (u = a \<or> u = b \<or> u = c) \<and> (v = a \<or> v = b \<or> v = c))"

definition edge_count :: "triangle list \<Rightarrow> nat \<Rightarrow> nat \<Rightarrow> nat" where
  "edge_count ts u v = length (filter (tri_has_edge u v) ts)"

definition tri_edges :: "'a \<times> 'a \<times> 'a \<Rightarrow> ('a \<times> 'a) list" where
  "tri_edges t = (case t of (a, b, c) \<Rightarrow> [(a, b), (b, c), (c, a)])"

definition nondegenerate :: "'a \<times> 'a \<times> 'a \<Rightarrow> bool" where
  "nondegenerate t = (case t of (a, b, c) \<Rightarrow> a \<noteq> b \<and> b \<noteq> c \<and> c \<noteq> a)"

text \<open>A closed manifold mesh: every edge of every triangle is shared by exactly two
  triangles.  A manifold mesh with boundary, consistently wound: no directed edge occurs
  twice, and every edge is shared by one or two triangles.\<close>

definition closed_manifold :: "triangle list \<Rightarrow> bool" where
  "closed_manifold ts = (\<forall>t \<in> set ts. \<forall>e \<in> set (tri_edges t). edge_count ts (fst e) (snd e) = 2)"

definition manifold_with_boundary :: "triangle list \<Rightarrow> bool" where
  "manifold_with_boundary ts =
     (distinct (concat (map tri_edges ts))
      \<and> (\<forall>t \<in> set ts. \<forall>e \<in> set (tri_edges t).
            1 \<le> edge_count ts (fst e) (snd e) \<and> edge_count ts (fst e) (snd e) \<le> 2))"

text \<open>All directed edges of a triangle list.\<close>

definition edges_of :: "('a \<times> 'a \<times> 'a) list \<Rightarrow> ('a \<times> 'a) list" where
  "edges_of ts = concat (map tri_edges ts)"

text \<open>A band of the vase, described by (column, kind) pairs: kind 0 is the outer upper
  row of a column, 1 the outer lower, 2 the inner upper, 3 the inner lower; \<open>band_row b\<close> is
  the vertex row of such a pair in the band whose first row is \<open>b\<close>.  \<open>band_column_tris i s\<close>
  are the eight triangles between column \<open>i\<close> and its successor \<open>s\<close>, \<open>abs_band n\<close> the band
  in the order the builder emits it.\<close>

definition tri_map :: "('a \<Rightarrow> 'b) \<Rightarrow> 'a \<times> 'a \<times> 'a \<Rightarrow> 'b \<times> 'b \<times> 'b" where
  "tri_map f t = (case t of (a, b, c) \<Rightarrow> (f a, f b, f c))"

definition band_row :: "nat \<Rightarrow> nat \<times> nat \<Rightarrow> nat" where
  "band_row b p = b + 4 * fst p + snd p"

definition band_column_tris :: "nat \<Rightarrow> nat \<Rightarrow> ((nat \<times> nat) \<times> (nat \<times> nat) \<times> (nat \<times> nat)) list" where
  "band_column_tris i s =
     [((i, 0), (i, 1), (s, 1)), ((i, 0), (s, 1), (s, 0)),
      ((i, 2), (s, 2), (i, 3)), ((i, 3), (s, 2), (s, 3)),
      ((i, 0), (s, 0), (i, 2)), ((i, 2), (s, 0), (s, 2)),
      ((i, 1), (i, 3), (s, 1)), ((i, 3), (s, 3), (s, 1))]"

definition col_outer :: "nat \<Rightarrow> nat \<Rightarrow> ((nat \<times> nat) \<times> (nat \<times> nat) \<times> (nat \<times> nat)) list" where
  "col_outer i s = [((i, 0), (i, 1), (s, 1)), ((i, 0), (s, 1), (s, 0))]"

definition col_inner :: "nat \<Rightarrow> nat \<Rightarrow> ((nat \<times> nat) \<times> (nat \<times> nat) \<times> (nat \<times> nat)) list" where
  "col_inner i s = [((i, 2), (s, 2), (i, 3)), ((i, 3), (s, 2), (s, 3))]"

definition col_wall :: "nat \<Rightarrow> nat \<Rightarrow> ((nat \<times> nat) \<times> (nat \<times> nat) \<times> (nat \<times> nat)) list" where
  "col_wall i s = [((i, 0), (s, 0), (i, 2)), ((i, 2), (s, 0), (s, 2)),
                   ((i, 1), (i, 3), (s, 1)), ((i, 3), (s, 3), (s, 1))]"

definition abs_band :: "nat \<Rightarrow> ((nat \<times> nat) \<times> (nat \<times> nat) \<times> (nat \<times> nat)) list" where
  "abs_band n =
     concat (map (\<lambda>i. col_outer i ((i + 1) mod n)) [0..<n])
     @ concat (map (\<lambda>i. col_inner i ((i + 1) mod n)) [0..<n])
     @ concat (map (\<lambda>i. col_wall i ((i + 1) mod n)) [0..<n])"

text \<open>A sample argument set with a nonzero groove depth: two grooves, no twist, no wave.\<close>

definition groove_sample_args :: shape_args where
  "groove_sample_args = \<lparr>segment_count = 2, object_width = 2.5, twist_angle = 0,
     twist_groove_depth = 1.0, vertical_wave_freq = 0, vertical_wave_depth = 0\<rparr>"

text \<open>A second one, within the ranges of the vase sliders: three lobes of the largest groove
  depth, no twist, no wave.\<close>

definition lobe_sample_args :: shape_args where
  "lobe_sample_args = \<lparr>segment_count = 3, object_width = 2.5, twist_angle = 0,
     twist_groove_depth = 5.0, vertical_wave_freq = 0, vertical_wave_depth = 0\<rparr>"

section \<open>Surface modulation: results\<close>

text \<open>
  C1. The radius computed by \<open>get_surface_modulation\<close> in the table builder and in the vase
  builder is, for every input, the value of the specification's formula: base width plus
  \<open>grooveDepth * 0.06 * cos (segmentCount * phi')\<close> plus
  \<open>waveDepth * 0.15 * cos (waveFreq * lengthRatio)\<close> with
  \<open>phi' = phi + twistAngle * 0.067 * pi * lengthRatio\<close>.  Being functions of their
  arguments only, equal inputs give equal outputs.
\<close>

theorem surface_modulation_formula:
  "table_get_surface_modulation a phi lr =
     spec_radius (object_width a) phi lr (segment_count a) (twist_angle a)
       (twist_groove_depth a) (vertical_wave_freq a) (vertical_wave_depth a)
   \<and> vase_get_surface_modulation a phi lr =
     spec_radius (object_width a) phi lr (segment_count a) (twist_angle a)
       (twist_groove_depth a) (vertical_wave_freq a) (vertical_wave_depth a)"
  by (simp add: table_get_surface_modulation_def vase_get_surface_modulation_def spec_radius_def Let_def)


section \<open>The table mesh: index list and triangle count\<close>


lemma table_rim_fold:
  "case fold (table_rim_step a) [0..<n] (vd, tops, bots) of (vd', tops', bots') \<Rightarrow>
     length vd' = length vd + 2 * n
     \<and> tops' = tops @ map (\<lambda>i. length vd + 2 * i) [0..<n]
     \<and> bots' = bots @ map (\<lambda>i. length vd + 2 * i + 1) [0..<n]"
proof (induction n)
  case 0
  show ?case by simp
next
  case (Suc n)
  obtain vd1 t1 b1 where f: "fold (table_rim_step a) [0..<n] (vd, tops, bots) = (vd1, t1, b1)"
    by (cases "fold (table_rim_step a) [0..<n] (vd, tops, bots)") auto
  from Suc f have ih: "length vd1 = length vd + 2 * n"
    "t1 = tops @ map (\<lambda>i. length vd + 2 * i) [0..<n]"
    "b1 = bots @ map (\<lambda>i. length vd + 2 * i + 1) [0..<n]" by simp_all
  have step: "fold (table_rim_step a) [0..<Suc n] (vd, tops, bots) = table_rim_step a n (vd1, t1, b1)"
    using f by simp
  show ?case unfolding step
    by (simp add: table_rim_step_def table_add_vertex_def Let_def ih)
qed

lemma table_top_fan_fold:
  "fold (table_top_fan_step c tops) [0..<n] idx =
     idx @ map (\<lambda>i. (c, tops ! i, tops ! ((i + 1) mod table_segments))) [0..<n]"
  by (induction n) (simp_all add: table_top_fan_step_def Let_def)

lemma table_bottom_fan_fold:
  "fold (table_bottom_fan_step c bots) [0..<n] idx =
     idx @ map (\<lambda>i. (c, bots ! ((i + 1) mod table_segments), bots ! i)) [0..<n]"
  by (induction n) (simp_all add: table_bottom_fan_step_def Let_def)

lemma table_side_fold:
  "case fold (table_side_step a h) [0..<n] (vd, idx) of (vd', idx') \<Rightarrow>
     length vd' = length vd + 4 * n
     \<and> idx' = idx @ concat (map (\<lambda>i. table_quad (length vd + 4 * i)) [0..<n])"
proof (induction n)
  case 0
  show ?case by simp
next
  case (Suc n)
  obtain vd1 i1 where f: "fold (table_side_step a h) [0..<n] (vd, idx) = (vd1, i1)"
    by (cases "fold (table_side_step a h) [0..<n] (vd, idx)") auto
  from Suc f have ih: "length vd1 = length vd + 4 * n"
    "i1 = idx @ concat (map (\<lambda>i. table_quad (length vd + 4 * i)) [0..<n])" by simp_all
  have step: "fold (table_side_step a h) [0..<Suc n] (vd, idx) = table_side_step a h n (vd1, i1)"
    using f by simp
  show ?case unfolding step
    by (simp add: table_side_step_def table_add_vertex_def Let_def ih table_quad_def)
qed

lemma table_bands_fold:
  "case fold (\<lambda>h. fold (table_side_step a h) [0..<n]) [0..<m] (vd, idx) of (vd', idx') \<Rightarrow>
     length vd' = length vd + 4 * n * m
     \<and> idx' = idx @ concat (map (\<lambda>h. concat (map (\<lambda>i. table_quad (length vd + 4 * n * h + 4 * i)) [0..<n])) [0..<m])"
proof (induction m)
  case 0
  show ?case by simp
next
  case (Suc m)
  obtain vd1 i1 where f: "fold (\<lambda>h. fold (table_side_step a h) [0..<n]) [0..<m] (vd, idx) = (vd1, i1)"
    by (cases "fold (\<lambda>h. fold (table_side_step a h) [0..<n]) [0..<m] (vd, idx)") auto
  obtain vd2 i2 where g: "fold (table_side_step a m) [0..<n] (vd1, i1) = (vd2, i2)"
    by (cases "fold (table_side_step a m) [0..<n] (vd1, i1)") auto
  from table_side_fold [where a=a and h=m and n=n and vd=vd1 and idx=i1] g
  have "length vd2 = length vd1 + 4 * n"
    and "i2 = i1 @ concat (map (\<lambda>i. table_quad (length vd1 + 4 * i)) [0..<n])" by auto
  with Suc f g show ?case by (simp add: algebra_simps)
qed

lemma tableGeometry_tris:
  "tris (snd (tableGeometry a)) = table_tris table_segments table_height_segments
   \<and> length (vdata (snd (tableGeometry a))) = 2 + 2 * table_segments + 4 * table_segments * table_height_segments"
proof -
  define vd0 where "vd0 = [Vertex 0 0 (table_height / 2) 0 0 1, Vertex 0 0 (- (table_height / 2)) 0 0 (- 1)]"
  obtain vd1 tops bots where r: "fold (table_rim_step a) [0..<table_segments] (vd0, [], []) = (vd1, tops, bots)"
    by (cases "fold (table_rim_step a) [0..<table_segments] (vd0, [], [])") auto
  from table_rim_fold [where a=a and n=table_segments and vd=vd0 and tops="[]" and bots="[]"] r
  have l1: "length vd1 = 2 + 2 * table_segments"
    and t: "tops = map (\<lambda>i. 2 + 2 * i) [0..<table_segments]"
    and b: "bots = map (\<lambda>i. 2 + 2 * i + 1) [0..<table_segments]"
    by (auto simp: vd0_def)
  define idx1 where "idx1 = fold (table_bottom_fan_step 1 bots) [0..<table_segments]
     (fold (table_top_fan_step 0 tops) [0..<table_segments] [])"
  obtain vd2 idx2 where s: "fold (\<lambda>h. fold (table_side_step a h) [0..<table_segments]) [0..<table_height_segments] (vd1, idx1) = (vd2, idx2)"
    by (cases "fold (\<lambda>h. fold (table_side_step a h) [0..<table_segments]) [0..<table_height_segments] (vd1, idx1)") auto
  have mod_lt: "\<And>i. (i + 1) mod table_segments < table_segments"
    by (simp add: table_segments_def)
  have i1: "idx1 = map (\<lambda>i. (0, 2 + 2 * i, 2 + 2 * ((i + 1) mod table_segments))) [0..<table_segments]
     @ map (\<lambda>i. (1, 3 + 2 * ((i + 1) mod table_segments), 3 + 2 * i)) [0..<table_segments]"
    unfolding idx1_def table_top_fan_fold table_bottom_fan_fold t b
    using mod_lt by simp
  note bands = table_bands_fold [where a=a and n=table_segments and m=table_height_segments
      and vd=vd1 and idx=idx1]
  from bands s
  have l2: "length vd2 = length vd1 + 4 * table_segments * table_height_segments"
    by auto
  from bands s
  have i2: "idx2 = idx1 @ concat (map (\<lambda>h. concat (map (\<lambda>i. table_quad (length vd1 + 4 * table_segments * h + 4 * i)) [0..<table_segments])) [0..<table_height_segments])"
    by auto
  have "tableGeometry a = (''Table'', \<lparr>vdata = vd2, tris = idx2\<rparr>)"
    using r s by (simp add: tableGeometry_def table_add_vertex_def Let_def vd0_def idx1_def)
  then show ?thesis by (simp add: i2 i1 l1 l2 table_tris_def)
qed


lemma len_quads: "length (concat (map (\<lambda>i. table_quad (f i)) xs)) = 2 * length xs"
  by (induction xs) (simp_all add: table_quad_def)

lemma len_bands:
  "length (concat (map (\<lambda>h. concat (map (\<lambda>i. table_quad (f h i)) [0..<n])) xs)) = 2 * n * length xs"
  by (induction xs) (simp_all add: len_quads)

lemma table_tris_length: "length (table_tris n m) = 2 * n + 2 * n * m"
  by (simp add: table_tris_def len_bands)

lemma tableGeometry_tris_length:
  "length (tris (snd (tableGeometry a))) =
     2 * table_segments + 2 * table_segments * table_height_segments"
  by (simp only: tableGeometry_tris table_tris_length)

text \<open>The arguments the table provider makes from \<open>tableDefaults\<close>.\<close>

lemma args_tableDefaults: "builder_args tableDefaults = Inr tableDefaults_args"
  by (simp add: builder_args_def tableDefaults_def err_bind_def param_get_def py_int_def
      tableDefaults_args_def)

text \<open>
  C7 (as amended).  For every argument set, the defaults included, the table mesh has exactly
  \<open>2N + 2NH\<close> triangles, \<open>N = 100\<close> the angular tessellation and \<open>H = 50\<close> the number of
  height bands: two cap fans of \<open>N\<close> triangles and two triangles for each of the \<open>N * H\<close>
  side quads, 10200 in all.  (\<open>2N + 2 + 4NH\<close> is the number of vertex rows.)
\<close>

theorem table_triangle_count:
  "length (tris (snd (tableGeometry a))) = 2 * table_segments + 2 * table_segments * table_height_segments
   \<and> length (tris (snd (tableGeometry a))) = 10200
   \<and> length (vdata (snd (tableGeometry a))) = 2 * table_segments + 2 + 4 * table_segments * table_height_segments"
  using tableGeometry_tris_length [of a] tableGeometry_tris [of a]
  by (simp add: table_segments_def table_height_segments_def)

text \<open>C7 as stated fails: at the defaults (those of \<open>tableDefaults\<close>, and those with the
  segment count 5 of the slider configuration) the triangle count is not \<open>2N + 2 + 4NH\<close>.\<close>

theorem table_triangle_count_counterexample:
  "length (tris (snd (tableGeometry tableDefaults_args)))
     \<noteq> 2 * table_segments + 2 + 4 * table_segments * table_height_segments
   \<and> length (tris (snd (tableGeometry (tableDefaults_args\<lparr>segment_count := 5\<rparr>))))
     \<noteq> 2 * table_segments + 2 + 4 * table_segments * table_height_segments"
  using tableGeometry_tris_length [of tableDefaults_args]
    tableGeometry_tris_length [of "tableDefaults_args\<lparr>segment_count := 5\<rparr>"]
  by (simp add: table_segments_def table_height_segments_def)

section \<open>The inner shell of the vase\<close>


section \<open>Errors raised along the creation pipeline\<close>

lemma param_get_error: "param_get ps n = Inl e \<Longrightarrow> e = KeyError n"
  by (simp add: param_get_def split: option.splits)

lemma create_cache_key_error: "create_cache_key ps = Inl e \<Longrightarrow> \<exists>n. e = KeyError n"
  by (auto simp: create_cache_key_def err_bind_def split: sum.splits dest: param_get_error)

lemma builder_args_error: "builder_args ps = Inl e \<Longrightarrow> \<exists>n. e = KeyError n"
  by (auto simp: builder_args_def err_bind_def split: sum.splits dest: param_get_error)

lemma provider_create_geometry_error:
  "fst (provider_create_geometry b dt now ps s) = Inl e \<Longrightarrow> \<exists>n. e = KeyError n"
  by (auto simp: provider_create_geometry_def Let_def split: sum.splits option.splits
      dest: create_cache_key_error builder_args_error)

lemma create_scene_object_error:
  "fst (create_scene_object req gr fs) = Inl e \<Longrightarrow> \<exists>n. e = AttributeError n"
  by (auto simp: create_scene_object_def Let_def split: if_splits prod.splits)

text \<open>With a registered provider \<open>create_object\<close> does not raise the unsupported-type error,
  that is the \<open>ValueError\<close> whose message is \<open>Unsupported object type:\<close> followed by the
  requested type: what the provider and the factory raise in the model is a \<open>KeyError\<close> or
  an \<open>AttributeError\<close>.  (Exceptions of the conversions on non-finite values, which the
  model leaves out, carry other messages.)\<close>

lemma create_object_supported_not_unsupported:
  assumes "geometry_providers_get (req_object_type req) = Some k"
  shows "fst (create_object gb clk req s)
     \<noteq> Inl (ValueError (''Unsupported object type: '' @ req_object_type req))"
proof
  assume a: "fst (create_object gb clk req s)
     = Inl (ValueError (''Unsupported object type: '' @ req_object_type req))"
  show False
  proof (cases k)
    case VaseProvider
    obtain r p where g: "vase_create_geometry (t_geometry clk) (req_params req) (vase_provider s) = (r, p)"
      by (cases "vase_create_geometry (t_geometry clk) (req_params req) (vase_provider s)") auto
    show False
    proof (cases r)
      case (Inl e)
      with g have "\<exists>n. e = KeyError n"
        using provider_create_geometry_error [of vase_builder "''Vace''" "t_geometry clk"
            "req_params req" "vase_provider s" e]
        by (simp add: vase_create_geometry_def)
      with a assms VaseProvider g Inl show False
        by (auto simp: create_object_def Let_def)
    next
      case (Inr gr)
      obtain r2 fs where c: "create_scene_object req gr (scene_factory (s\<lparr>vase_provider := p\<rparr>)) = (r2, fs)"
        by (cases "create_scene_object req gr (scene_factory (s\<lparr>vase_provider := p\<rparr>))") auto
      show False
      proof (cases r2)
        case (Inl e)
        with c have "\<exists>n. e = AttributeError n"
          using create_scene_object_error [of req gr "scene_factory (s\<lparr>vase_provider := p\<rparr>)" e]
          by simp
        with a assms VaseProvider g Inr c Inl show False
          by (auto simp: create_object_def Let_def)
      next
        case (Inr so)
        with a assms VaseProvider g \<open>r = Inr gr\<close> c show False
          by (auto simp: create_object_def Let_def)
      qed
    qed
  next
    case TableProvider
    obtain r p where g: "table_create_geometry (t_geometry clk) (req_params req) (table_provider s) = (r, p)"
      by (cases "table_create_geometry (t_geometry clk) (req_params req) (table_provider s)") auto
    show False
    proof (cases r)
      case (Inl e)
      with g have "\<exists>n. e = KeyError n"
        using provider_create_geometry_error [of table_builder "''Table''" "t_geometry clk"
            "req_params req" "table_provider s" e]
        by (simp add: table_create_geometry_def)
      with a assms TableProvider g Inl show False
        by (auto simp: create_object_def Let_def)
    next
      case (Inr gr)
      obtain r2 fs where c: "create_scene_object req gr (scene_factory (s\<lparr>table_provider := p\<rparr>)) = (r2, fs)"
        by (cases "create_scene_object req gr (scene_factory (s\<lparr>table_provider := p\<rparr>))") auto
      show False
      proof (cases r2)
        case (Inl e)
        with c have "\<exists>n. e = AttributeError n"
          using create_scene_object_error [of req gr "scene_factory (s\<lparr>table_provider := p\<rparr>)" e]
          by simp
        with a assms TableProvider g Inr c Inl show False
          by (auto simp: create_object_def Let_def)
      next
        case (Inr so)
        with a assms TableProvider g \<open>r = Inr gr\<close> c show False
          by (auto simp: create_object_def Let_def)
      qed
    qed
  qed
qed

lemma create_object_unsupported_eq:
  assumes "geometry_providers_get (req_object_type req) = None"
  shows "create_object gb clk req s =
     (Inl (ValueError (''Unsupported object type: '' @ req_object_type req)), s)"
  using assms by (simp add: create_object_def)

lemma providers_get_None:
  "geometry_providers_get t = None \<longleftrightarrow> t \<noteq> ''Vace'' \<and> t \<noteq> ''Table''"
  by (simp add: geometry_providers_get_def)

text \<open>
  C9. \<open>create_object\<close> raises the unsupported-type error, the \<open>ValueError\<close> with the
  message \<open>Unsupported object type:\<close> followed by the requested type, exactly when the
  requested type is neither of the two registered keys (\<open>"Vace"\<close> and \<open>"Table"\<close>); when it
  does, the whole service state is returned as it was: no provider was called, no cache,
  counter, scene node or performance sample changed.
\<close>

theorem create_object_unsupported_iff:
  "((fst (create_object gb clk req s)
        = Inl (ValueError (''Unsupported object type: '' @ req_object_type req)))
      = (req_object_type req \<noteq> ''Vace'' \<and> req_object_type req \<noteq> ''Table''))
   \<and> (req_object_type req \<noteq> ''Vace'' \<and> req_object_type req \<noteq> ''Table'' \<longrightarrow>
        create_object gb clk req s =
          (Inl (ValueError (''Unsupported object type: '' @ req_object_type req)), s))"
proof (cases "geometry_providers_get (req_object_type req)")
  case None
  then show ?thesis
    using create_object_unsupported_eq [OF None, of gb clk s]
      providers_get_None [of "req_object_type req"]
    by auto
next
  case (Some k)
  then show ?thesis
    using create_object_supported_not_unsupported [OF Some, of gb clk s]
      providers_get_None [of "req_object_type req"]
    by auto
qed

theorem create_object_unsupported_iff_witness:
  "req_object_type (sample_request ''Vase'') \<noteq> ''Vace''
   \<and> req_object_type (sample_request ''Vase'') \<noteq> ''Table''
   \<and> fst (create_object (\<lambda>_. None) sample_clock (sample_request ''Vase'') service_init)
          = Inl (ValueError ''Unsupported object type: Vase'')
   \<and> create_object (\<lambda>_. None) sample_clock (sample_request ''Vase'') service_init =
        (Inl (ValueError ''Unsupported object type: Vase''), service_init)"
  using create_object_unsupported_iff [of "\<lambda>_. None" sample_clock "sample_request ''Vase''" service_init]
  by (simp add: sample_request_def)

section \<open>The display debounce\<close>

lemma update_display_dropped:
  "t - last_update_time s < PARAMETER_UPDATE_DEBOUNCE / 1000 \<Longrightarrow>
   update_display t c b g s = s\<lparr>pending_updates := pending_updates s + 1\<rparr>"
  by (simp add: update_display_def)

lemma apply_display_data_keeps:
  "last_update_time (apply_display_data d s) = last_update_time s"
  "pending_updates (apply_display_data d s) = pending_updates s"
  "display_cache (apply_display_data d s) = display_cache s"
  by (simp_all add: apply_display_data_def Let_def split: option.splits metrics.splits)

lemma update_display_applied:
  assumes "\<not> t - last_update_time s < PARAMETER_UPDATE_DEBOUNCE / 1000"
  shows "last_update_time (update_display t c b g s) = t"
    and "pending_updates (update_display t c b g s) = 0"
  using assms
  by (simp_all add: update_display_def Let_def apply_display_data_keeps
      split: option.splits prod.splits)

text \<open>
  C6 (as amended).  The window is measured from the last applied update.  If a call of
  \<open>update_display\<close> is applied (at least 100 ms after the last applied one) and a second call
  follows it by less than 100 ms, then the first call stamps the last-applied time and the
  second changes nothing but the pending counter, which it raises from 0 to 1: display
  cache, last-applied time, UI calls and camera calls are those left by the first call.
\<close>

theorem debounce_drops_second_call:
  assumes first: "\<not> t1 - last_update_time s < 100 / 1000"
    and close: "t2 - t1 < 100 / 1000"
  shows "last_update_time (update_display t1 c1 b1 g1 s) = t1
    \<and> update_display t2 c2 b2 g2 (update_display t1 c1 b1 g1 s)
        = (update_display t1 c1 b1 g1 s)\<lparr>pending_updates := 1\<rparr>"
proof -
  let ?s1 = "update_display t1 c1 b1 g1 s"
  from first have a: "\<not> t1 - last_update_time s < PARAMETER_UPDATE_DEBOUNCE / 1000"
    by (simp add: PARAMETER_UPDATE_DEBOUNCE_def)
  have l: "last_update_time ?s1 = t1" and p: "pending_updates ?s1 = 0"
    using update_display_applied [OF a] by simp_all
  from close l have "t2 - last_update_time ?s1 < PARAMETER_UPDATE_DEBOUNCE / 1000"
    by (simp add: PARAMETER_UPDATE_DEBOUNCE_def)
  from update_display_dropped [OF this] p l show ?thesis by simp
qed

theorem debounce_drops_second_call_witness:
  "\<not> (1000::real) - last_update_time (display_init True False) < 100 / 1000
   \<and> (1000.05::real) - 1000 < 100 / 1000
   \<and> last_update_time (update_display 1000 1000 None sample_result (display_init True False)) = 1000
   \<and> update_display 1000.05 1000.05 None sample_result
        (update_display 1000 1000 None sample_result (display_init True False))
      = (update_display 1000 1000 None sample_result (display_init True False))\<lparr>pending_updates := 1\<rparr>"
proof -
  have h1: "\<not> (1000::real) - last_update_time (display_init True False) < 100 / 1000"
    by (simp add: display_init_def)
  have h2: "(1000.05::real) - 1000 < 100 / 1000" by simp
  from debounce_drops_second_call [OF h1 h2] h1 h2 show ?thesis by blast
qed

text \<open>
  C6 as stated fails when the first of the two calls was itself dropped: after an update
  applied at time 1000, a call at 1000.05 is dropped and a call at 1000.12, only 70 ms
  later, is applied (it stamps the last-applied time), so it does more than raise the
  pending counter.
\<close>

theorem debounce_counterexample:
  "(1000.12::real) - 1000.05 < 100 / 1000
   \<and> update_display 1000.12 1000.12 None sample_result
        (update_display 1000.05 1000.05 None sample_result
           ((display_init True False)\<lparr>last_update_time := 1000\<rparr>))
      \<noteq> (update_display 1000.05 1000.05 None sample_result
           ((display_init True False)\<lparr>last_update_time := 1000\<rparr>))
           \<lparr>pending_updates := pending_updates (update_display 1000.05 1000.05 None sample_result
                ((display_init True False)\<lparr>last_update_time := 1000\<rparr>)) + 1\<rparr>"
proof -
  let ?s0 = "(display_init True False)\<lparr>last_update_time := 1000\<rparr>"
  let ?s1 = "update_display 1000.05 1000.05 None sample_result ?s0"
  let ?s2 = "update_display 1000.12 1000.12 None sample_result ?s1"
  have d: "?s1 = ?s0\<lparr>pending_updates := 1\<rparr>"
    by (simp add: update_display_def PARAMETER_UPDATE_DEBOUNCE_def display_init_def)
  have "\<not> (1000.12::real) - last_update_time ?s1 < PARAMETER_UPDATE_DEBOUNCE / 1000"
    unfolding d by (simp add: PARAMETER_UPDATE_DEBOUNCE_def display_init_def)
  from update_display_applied(1) [OF this]
  have a: "last_update_time ?s2 = 1000.12" .
  have b: "last_update_time (?s1\<lparr>pending_updates := pending_updates ?s1 + 1\<rparr>) = 1000"
    unfolding d by (simp add: display_init_def)
  have "?s2 \<noteq> ?s1\<lparr>pending_updates := pending_updates ?s1 + 1\<rparr>"
  proof
    assume "?s2 = ?s1\<lparr>pending_updates := pending_updates ?s1 + 1\<rparr>"
    then have "last_update_time ?s2
       = last_update_time (?s1\<lparr>pending_updates := pending_updates ?s1 + 1\<rparr>)" by (rule arg_cong)
    with a b have "(1000.12::real) = 1000" by (simp only:)
    then show False by simp
  qed
  then show ?thesis by simp
qed

section \<open>The geometry cache: hits\<close>

lemma key_ok_args_ok:
  "create_cache_key ps = Inr k \<Longrightarrow> \<exists>a. builder_args ps = Inr a"
  by (auto simp: create_cache_key_def builder_args_def err_bind_def split: sum.splits)

lemma map_of_cache_geometry:
  "map_of (cache_geometry now k gr c) k =
     Some \<lparr>geometry_result = gr, timestamp = now, access_count = 0\<rparr>"
  by (simp add: cache_geometry_def Let_def update_conv')

text \<open>After a call whose key is \<open>k\<close>, hit or miss, \<open>k\<close> is cached and the call returned the
  cached result.\<close>

lemma create_geometry_caches:
  assumes "create_cache_key ps = Inr k"
  shows "\<exists>e. map_of (geometry_cache (snd (provider_create_geometry b dt now ps s))) k = Some e
     \<and> fst (provider_create_geometry b dt now ps s) = Inr (geometry_result e)"
proof (cases "map_of (geometry_cache s) k")
  case None
  from key_ok_args_ok [OF assms] obtain a where a: "builder_args ps = Inr a" by blast
  show ?thesis using assms None a
    by (simp add: provider_create_geometry_def Let_def map_of_cache_geometry)
next
  case (Some e)
  show ?thesis using assms Some
    by (simp add: provider_create_geometry_def Let_def update_conv')
qed

lemma create_geometry_hit:
  assumes "create_cache_key ps = Inr k" and "map_of (geometry_cache s) k = Some e"
  shows "provider_create_geometry b dt now ps s =
     (Inr (geometry_result e),
      s\<lparr>cache_hits := cache_hits s + 1,
        geometry_cache := AList.update k
          (e\<lparr>access_count := access_count e + 1, timestamp := now\<rparr>) (geometry_cache s)\<rparr>)"
  using assms by (simp add: provider_create_geometry_def Let_def)

lemma second_call_hits:
  assumes k1: "create_cache_key p1 = Inr k" and k2: "create_cache_key p2 = Inr k"
    and c1: "provider_create_geometry b dt t1 p1 s = (r1, s1)"
    and c2: "provider_create_geometry b dt t2 p2 s1 = (r2, s2)"
  shows "\<exists>e. map_of (geometry_cache s1) k = Some e
     \<and> r1 = Inr (geometry_result e) \<and> r2 = Inr (geometry_result e)
     \<and> cache_hits s2 = cache_hits s1 + 1
     \<and> cache_misses s2 = cache_misses s1
     \<and> builder_calls s2 = builder_calls s1
     \<and> map_of (geometry_cache s2) k =
         Some \<lparr>geometry_result = geometry_result e, timestamp = t2, access_count = access_count e + 1\<rparr>"
proof -
  from create_geometry_caches [OF k1, of b dt t1 s] c1
  obtain e where e: "map_of (geometry_cache s1) k = Some e"
    and r: "r1 = Inr (geometry_result e)" by auto
  have "e\<lparr>access_count := access_count e + 1, timestamp := t2\<rparr>
     = \<lparr>geometry_result = geometry_result e, timestamp = t2, access_count = access_count e + 1\<rparr>"
    by simp
  with create_geometry_hit [OF k2 e, of b dt t2] c2 e r show ?thesis
    by (auto simp: update_conv')
qed

lemma key_vaseDefaults: "create_cache_key vaseDefaults = Inr vase_default_key"
  by (simp add: create_cache_key_def vaseDefaults_def err_bind_def param_get_def py_round_def
      round_half_even_def py_int_def Let_def vase_default_key_def)

lemma key_vaseDefaults_near:
  "create_cache_key (vaseDefaults(''Object Width'' \<mapsto> 2.501)) = Inr vase_default_key"
  by (simp add: create_cache_key_def vaseDefaults_def err_bind_def param_get_def py_round_def
      round_half_even_def py_int_def Let_def vase_default_key_def)

lemma args_vaseDefaults: "builder_args vaseDefaults = Inr vaseDefaults_args"
  by (simp add: builder_args_def vaseDefaults_def err_bind_def param_get_def py_int_def
      vaseDefaults_args_def)

text \<open>
  C4. Let two parameter maps have the same cache key \<open>k\<close>, and let \<open>create_geometry\<close> of a
  provider (vase or table) be called with the first and then with the second.  After the
  first call \<open>k\<close> is cached with some entry \<open>e\<close> whose result the first call returned; the
  second call returns that same stored result, adds one to the hit count, leaves the miss
  count and the log of builder calls as they were, and leaves under \<open>k\<close> the same result
  with the timestamp set to the time of the second call and the access count one higher.
\<close>

theorem cache_hit_on_second_call:
  assumes "create_cache_key p1 = Inr k" and "create_cache_key p2 = Inr k"
    and "create = vase_create_geometry \<or> create = table_create_geometry"
    and "create t1 p1 s = (r1, s1)" and "create t2 p2 s1 = (r2, s2)"
  shows "\<exists>e. map_of (geometry_cache s1) k = Some e
     \<and> r1 = Inr (geometry_result e) \<and> r2 = Inr (geometry_result e)
     \<and> cache_hits s2 = cache_hits s1 + 1
     \<and> cache_misses s2 = cache_misses s1
     \<and> builder_calls s2 = builder_calls s1
     \<and> map_of (geometry_cache s2) k =
         Some \<lparr>geometry_result = geometry_result e, timestamp = t2, access_count = access_count e + 1\<rparr>"
proof -
  from assms(3) show ?thesis
  proof
    assume "create = vase_create_geometry"
    with assms(4,5) show ?thesis
      using second_call_hits [OF assms(1,2), of vase_builder "''Vace''" t1 s r1 s1 t2 r2 s2]
      by (simp add: vase_create_geometry_def)
  next
    assume "create = table_create_geometry"
    with assms(4,5) show ?thesis
      using second_call_hits [OF assms(1,2), of table_builder "''Table''" t1 s r1 s1 t2 r2 s2]
      by (simp add: table_create_geometry_def)
  qed
qed

theorem cache_hit_on_second_call_witness:
  "create_cache_key vaseDefaults = Inr vase_default_key
   \<and> create_cache_key (vaseDefaults(''Object Width'' \<mapsto> 2.501)) = Inr vase_default_key
   \<and> (\<exists>e. map_of (geometry_cache (snd (vase_create_geometry 1000 vaseDefaults provider_init)))
             vase_default_key = Some e
        \<and> fst (vase_create_geometry 1000 vaseDefaults provider_init) = Inr (geometry_result e)
        \<and> fst (vase_create_geometry 1001 (vaseDefaults(''Object Width'' \<mapsto> 2.501))
                 (snd (vase_create_geometry 1000 vaseDefaults provider_init)))
            = Inr (geometry_result e)
        \<and> cache_hits (snd (vase_create_geometry 1001 (vaseDefaults(''Object Width'' \<mapsto> 2.501))
                 (snd (vase_create_geometry 1000 vaseDefaults provider_init))))
            = cache_hits (snd (vase_create_geometry 1000 vaseDefaults provider_init)) + 1
        \<and> cache_misses (snd (vase_create_geometry 1001 (vaseDefaults(''Object Width'' \<mapsto> 2.501))
                 (snd (vase_create_geometry 1000 vaseDefaults provider_init))))
            = cache_misses (snd (vase_create_geometry 1000 vaseDefaults provider_init)))"
proof -
  let ?c1 = "vase_create_geometry 1000 vaseDefaults provider_init"
  let ?c2 = "vase_create_geometry 1001 (vaseDefaults(''Object Width'' \<mapsto> 2.501)) (snd ?c1)"
  have h3: "vase_create_geometry = vase_create_geometry \<or> vase_create_geometry = table_create_geometry"
    by simp
  have h4: "?c1 = (fst ?c1, snd ?c1)" and h5: "?c2 = (fst ?c2, snd ?c2)" by simp_all
  from cache_hit_on_second_call [OF key_vaseDefaults key_vaseDefaults_near h3 h4 h5]
    key_vaseDefaults key_vaseDefaults_near
  show ?thesis by blast
qed

section \<open>The vase provider and wall thickness\<close>

lemma agree_key:
  assumes "\<forall>n \<in> set param_names. p n = p' n"
  shows "create_cache_key p = create_cache_key p'" and "builder_args p = builder_args p'"
  using assms by (simp_all add: create_cache_key_def builder_args_def param_get_def param_names_def)

lemma agree_create_geometry:
  assumes "\<forall>n \<in> set param_names. p n = p' n"
  shows "provider_create_geometry b dt now p s = provider_create_geometry b dt now p' s"
  unfolding provider_create_geometry_def agree_key(1) [OF assms] agree_key(2) [OF assms]
  by (rule refl)

lemma vase_miss_builds_default_wall:
  assumes "create_cache_key p = Inr k" and "map_of (geometry_cache s) k = None"
  shows "\<exists>a. builder_args p = Inr a \<and>
     fst (vase_create_geometry now p s) =
       Inr (extract_result (case vaseGeometry a 0.5 of (t, g, h, d) \<Rightarrow> Tuple4 t g h d) ''Vace'')"
proof -
  from key_ok_args_ok [OF assms(1)] obtain a where a: "builder_args p = Inr a" by blast
  with assms show ?thesis
    by (simp add: vase_create_geometry_def provider_create_geometry_def Let_def vase_builder_def)
qed

text \<open>
  C10. The vase provider reads the six named parameters only.  Two parameter maps that
  agree on them (in particular two maps that differ only in a wall-thickness entry) have
  the same cache key, and \<open>create_geometry\<close> returns the same result and the same provider
  state for both; on a miss the geometry is the one \<open>vaseGeometry\<close> builds from the six
  arguments with wall thickness \<open>0.5\<close>.
\<close>

theorem wall_thickness_ignored:
  assumes "\<forall>n \<in> set param_names. p n = p' n"
  shows "create_cache_key p = create_cache_key p'
     \<and> vase_create_geometry now p s = vase_create_geometry now p' s
     \<and> (\<forall>k. create_cache_key p = Inr k \<and> map_of (geometry_cache s) k = None \<longrightarrow>
           (\<exists>a. builder_args p = Inr a \<and>
              fst (vase_create_geometry now p s) =
                Inr (extract_result (case vaseGeometry a 0.5 of (t, g, h, d) \<Rightarrow> Tuple4 t g h d) ''Vace'')))"
  using agree_key(1) [OF assms] agree_create_geometry [OF assms, of vase_builder "''Vace''" now s]
    vase_miss_builds_default_wall [of p _ s now]
  by (auto simp: vase_create_geometry_def)

theorem wall_thickness_ignored_witness:
  "map vaseDefaults param_names = map (vaseDefaults(''Wall Thickness'' \<mapsto> 0.9)) param_names
   \<and> create_cache_key vaseDefaults = create_cache_key (vaseDefaults(''Wall Thickness'' \<mapsto> 0.9))
   \<and> vase_create_geometry 1000 vaseDefaults provider_init
       = vase_create_geometry 1000 (vaseDefaults(''Wall Thickness'' \<mapsto> 0.9)) provider_init
   \<and> create_cache_key vaseDefaults = Inr vase_default_key
   \<and> map_of (geometry_cache provider_init) vase_default_key = None
   \<and> fst (vase_create_geometry 1000 vaseDefaults provider_init) =
        Inr (extract_result (case vaseGeometry vaseDefaults_args 0.5 of (t, g, h, d) \<Rightarrow> Tuple4 t g h d) ''Vace'')"
proof -
  have h: "\<forall>n \<in> set param_names. vaseDefaults n = (vaseDefaults(''Wall Thickness'' \<mapsto> 0.9)) n"
    by (simp add: param_names_def)
  have e: "map_of (geometry_cache provider_init) vase_default_key = None"
    by (simp add: provider_init_def)
  note w = wall_thickness_ignored [OF h, of 1000 provider_init]
  from w have a: "create_cache_key vaseDefaults
      = create_cache_key (vaseDefaults(''Wall Thickness'' \<mapsto> 0.9))"
    by (rule conjunct1)
  from w have b: "vase_create_geometry 1000 vaseDefaults provider_init
       = vase_create_geometry 1000 (vaseDefaults(''Wall Thickness'' \<mapsto> 0.9)) provider_init"
    by blast
  from w key_vaseDefaults e
  obtain x where x: "builder_args vaseDefaults = Inr x"
    and f: "fst (vase_create_geometry 1000 vaseDefaults provider_init) =
      Inr (extract_result (case vaseGeometry x 0.5 of (t, g, h, d) \<Rightarrow> Tuple4 t g h d) ''Vace'')"
    by blast
  from x have "x = vaseDefaults_args" by (simp add: args_vaseDefaults)
  with f have d: "fst (vase_create_geometry 1000 vaseDefaults provider_init) =
      Inr (extract_result (case vaseGeometry vaseDefaults_args 0.5 of (t, g, h, d) \<Rightarrow> Tuple4 t g h d) ''Vace'')"
    by (simp only:)
  have h': "map vaseDefaults param_names = map (vaseDefaults(''Wall Thickness'' \<mapsto> 0.9)) param_names"
    by (simp add: param_names_def)
  from h' a b key_vaseDefaults e d show ?thesis by blast
qed

section \<open>The geometry cache: capacity and eviction\<close>


lemma create_all_append:
  "create_all create (cs @ ds) s = create_all create ds (create_all create cs s)"
  by (induction cs arbitrary: s) simp_all

lemma update_fresh: "k \<notin> fst ` set al \<Longrightarrow> AList.update k v al = al @ [(k, v)]"
  by (induction al) auto

lemma length_update_le: "length (AList.update k v al) \<le> Suc (length al)"
  by (induction al) auto

lemma length_update_present: "k \<in> fst ` set al \<Longrightarrow> length (AList.update k v al) = length al"
  by (induction al) auto

lemma length_delete_present: "k \<in> fst ` set al \<Longrightarrow> length (AList.delete k al) < length al"
proof -
  assume "k \<in> fst ` set al"
  then obtain p where p: "p \<in> set al" "fst p = k" by auto
  have "\<not> (case p of (k', _) \<Rightarrow> k \<noteq> k')" using p(2) by (simp add: split_beta)
  with p(1) have "length (filter (\<lambda>(k', _). k \<noteq> k') al) < length al"
    by (rule length_filter_less)
  then show ?thesis by (simp add: AList.delete_eq)
qed

lemma oldest_entry_in: "oldest_entry e es \<in> set (e # es)"
  by (induction es arbitrary: e) auto

lemma cache_geometry_length:
  assumes "length c \<le> GEOMETRY_CACHE_SIZE"
  shows "length (cache_geometry now k gr c) \<le> GEOMETRY_CACHE_SIZE"
proof (cases "length c \<ge> GEOMETRY_CACHE_SIZE")
  case False
  then have "cache_geometry now k gr c
     = AList.update k \<lparr>geometry_result = gr, timestamp = now, access_count = 0\<rparr> c"
    by (simp add: cache_geometry_def)
  moreover from False have "Suc (length c) \<le> GEOMETRY_CACHE_SIZE" by simp
  moreover have "length (AList.update k \<lparr>geometry_result = gr, timestamp = now, access_count = 0\<rparr> c)
      \<le> Suc (length c)" by (rule length_update_le)
  ultimately show ?thesis by simp
next
  case True
  then obtain e es where c: "c = e # es"
    by (cases c) (auto simp: GEOMETRY_CACHE_SIZE_def)
  let ?d = "AList.delete (fst (oldest_entry e es)) c"
  have "fst (oldest_entry e es) \<in> fst ` set c"
    unfolding c using oldest_entry_in [of e es] by (rule imageI)
  then have "length ?d < length c" by (rule length_delete_present)
  with assms have "Suc (length ?d) \<le> GEOMETRY_CACHE_SIZE" by simp
  moreover have "cache_geometry now k gr c
     = AList.update k \<lparr>geometry_result = gr, timestamp = now, access_count = 0\<rparr> ?d"
    using True c by (simp add: cache_geometry_def)
  moreover have "length (AList.update k \<lparr>geometry_result = gr, timestamp = now, access_count = 0\<rparr> ?d)
      \<le> Suc (length ?d)" by (rule length_update_le)
  ultimately show ?thesis by simp
qed

lemma create_geometry_length:
  assumes "length (geometry_cache s) \<le> GEOMETRY_CACHE_SIZE"
  shows "length (geometry_cache (snd (provider_create_geometry b dt now ps s))) \<le> GEOMETRY_CACHE_SIZE"
proof (cases "create_cache_key ps")
  case (Inl e)
  with assms show ?thesis by (simp add: provider_create_geometry_def)
next
  case (Inr k)
  show ?thesis
  proof (cases "map_of (geometry_cache s) k")
    case (Some e)
    then have "k \<in> fst ` set (geometry_cache s)"
      using map_of_eq_None_iff [of "geometry_cache s" k] by auto
    with assms Inr Some show ?thesis
      by (simp add: provider_create_geometry_def Let_def length_update_present)
  next
    case None
    show ?thesis
    proof (cases "builder_args ps")
      case (Inl e)
      with assms Inr None show ?thesis by (simp add: provider_create_geometry_def)
    next
      case (Inr a)
      with assms \<open>create_cache_key ps = Inr k\<close> None show ?thesis
        by (simp add: provider_create_geometry_def Let_def cache_geometry_length)
    qed
  qed
qed

lemma create_all_length:
  assumes "length (geometry_cache s) \<le> GEOMETRY_CACHE_SIZE"
  shows "length (geometry_cache (create_all (provider_create_geometry b dt) cs s)) \<le> GEOMETRY_CACHE_SIZE"
  using assms
  by (induction cs arbitrary: s) (simp_all add: create_geometry_length)

text \<open>The scan returns the first entry of least timestamp.\<close>

lemma oldest_entry_first_min:
  "\<exists>j \<le> length es. oldest_entry e es = (e # es) ! j
     \<and> (\<forall>i \<le> length es. timestamp (snd ((e # es) ! j)) \<le> timestamp (snd ((e # es) ! i)))
     \<and> (\<forall>i < j. timestamp (snd ((e # es) ! j)) < timestamp (snd ((e # es) ! i)))"
proof (induction es arbitrary: e)
  case Nil
  show ?case by simp
next
  case (Cons x xs)
  let ?ts = "\<lambda>y. timestamp (snd y)"
  show ?case
  proof (cases "?ts x < ?ts e")
    case True
    from Cons [of x] obtain j where j: "j \<le> length xs" "oldest_entry x xs = (x # xs) ! j"
      and mn: "\<forall>i \<le> length xs. ?ts ((x # xs) ! j) \<le> ?ts ((x # xs) ! i)"
      and fs: "\<forall>i < j. ?ts ((x # xs) ! j) < ?ts ((x # xs) ! i)" by blast
    from mn [rule_format, of 0] have le0: "?ts ((x # xs) ! j) \<le> ?ts x" by simp
    have "Suc j \<le> length (x # xs)" using j by simp
    moreover have "oldest_entry e (x # xs) = (e # x # xs) ! Suc j" using True j by simp
    moreover have "\<forall>i \<le> length (x # xs). ?ts ((e # x # xs) ! Suc j) \<le> ?ts ((e # x # xs) ! i)"
    proof (intro allI impI)
      fix i assume "i \<le> length (x # xs)"
      then show "?ts ((e # x # xs) ! Suc j) \<le> ?ts ((e # x # xs) ! i)"
        using mn le0 True by (cases i) auto
    qed
    moreover have "\<forall>i < Suc j. ?ts ((e # x # xs) ! Suc j) < ?ts ((e # x # xs) ! i)"
    proof (intro allI impI)
      fix i assume "i < Suc j"
      then show "?ts ((e # x # xs) ! Suc j) < ?ts ((e # x # xs) ! i)"
        using fs le0 True by (cases i) auto
    qed
    ultimately show ?thesis by blast
  next
    case False
    from Cons [of e] obtain j where j: "j \<le> length xs" "oldest_entry e xs = (e # xs) ! j"
      and mn: "\<forall>i \<le> length xs. ?ts ((e # xs) ! j) \<le> ?ts ((e # xs) ! i)"
      and fs: "\<forall>i < j. ?ts ((e # xs) ! j) < ?ts ((e # xs) ! i)" by blast
    show ?thesis
    proof (cases j)
      case 0
      have "0 \<le> length (x # xs)" by simp
      moreover have "oldest_entry e (x # xs) = (e # x # xs) ! 0" using False j 0 by simp
      moreover have "\<forall>i \<le> length (x # xs). ?ts ((e # x # xs) ! 0) \<le> ?ts ((e # x # xs) ! i)"
      proof (intro allI impI)
        fix i assume a: "i \<le> length (x # xs)"
        show "?ts ((e # x # xs) ! 0) \<le> ?ts ((e # x # xs) ! i)"
        proof (cases i)
          case 0 then show ?thesis by simp
        next
          case (Suc i')
          show ?thesis
          proof (cases i')
            case 0 with Suc False show ?thesis by simp
          next
            case (Suc i'')
            with a \<open>i = Suc i'\<close> have "Suc i'' \<le> length xs" by simp
            with mn [rule_format, of "Suc i''"] \<open>j = 0\<close> have "?ts e \<le> ?ts ((e # xs) ! Suc i'')" by simp
            with Suc \<open>i = Suc i'\<close> show ?thesis by simp
          qed
        qed
      qed
      moreover have "\<forall>i < (0::nat). ?ts ((e # x # xs) ! 0) < ?ts ((e # x # xs) ! i)" by simp
      ultimately show ?thesis by blast
    next
      case (Suc j')
      from fs [rule_format, of 0] Suc have lt0: "?ts ((e # xs) ! j) < ?ts e" by simp
      have "Suc j \<le> length (x # xs)" using j by simp
      moreover have "oldest_entry e (x # xs) = (e # x # xs) ! Suc j" using False j Suc by simp
      moreover have "\<forall>i \<le> length (x # xs). ?ts ((e # x # xs) ! Suc j) \<le> ?ts ((e # x # xs) ! i)"
      proof (intro allI impI)
        fix i assume a: "i \<le> length (x # xs)"
        show "?ts ((e # x # xs) ! Suc j) \<le> ?ts ((e # x # xs) ! i)"
        proof (cases i)
          case 0 with lt0 Suc show ?thesis by simp
        next
          case (Suc i')
          show ?thesis
          proof (cases i')
            case 0 with \<open>i = Suc i'\<close> False lt0 \<open>j = Suc j'\<close> show ?thesis by simp
          next
            case (Suc i'')
            with a \<open>i = Suc i'\<close> have "Suc i'' \<le> length xs" by simp
            with mn have "?ts ((e # xs) ! j) \<le> ?ts ((e # xs) ! Suc i'')" by blast
            with Suc \<open>i = Suc i'\<close> \<open>j = Suc j'\<close> show ?thesis by simp
          qed
        qed
      qed
      moreover have "\<forall>i < Suc j. ?ts ((e # x # xs) ! Suc j) < ?ts ((e # x # xs) ! i)"
      proof (intro allI impI)
        fix i assume a: "i < Suc j"
        show "?ts ((e # x # xs) ! Suc j) < ?ts ((e # x # xs) ! i)"
        proof (cases i)
          case 0 with lt0 Suc show ?thesis by simp
        next
          case (Suc i')
          show ?thesis
          proof (cases i')
            case 0 with \<open>i = Suc i'\<close> False lt0 \<open>j = Suc j'\<close> show ?thesis by simp
          next
            case (Suc i'')
            with a \<open>i = Suc i'\<close> have "Suc i'' < j" by simp
            with fs have "?ts ((e # xs) ! j) < ?ts ((e # xs) ! Suc i'')" by blast
            with Suc \<open>i = Suc i'\<close> \<open>j = Suc j'\<close> show ?thesis by simp
          qed
        qed
      qed
      ultimately show ?thesis by blast
    qed
  qed
qed

lemma delete_nth_distinct:
  assumes "distinct (map fst al)" and "j < length al"
  shows "AList.delete (fst (al ! j)) al = take j al @ drop (Suc j) al"
  using assms
proof (induction al arbitrary: j)
  case Nil
  then show ?case by simp
next
  case (Cons a al)
  show ?case
  proof (cases j)
    case 0
    with Cons.prems show ?thesis by simp
  next
    case (Suc j')
    with Cons.prems have "j' < length al" by simp
    then have "al ! j' \<in> set al" by simp
    then have "fst (al ! j') \<in> fst ` set al" by (rule imageI)
    moreover from Cons.prems have "fst a \<notin> fst ` set al" by simp
    ultimately have "fst a \<noteq> fst (al ! j')" by metis
    with Cons Suc \<open>j' < length al\<close> show ?thesis by simp
  qed
qed


lemma miss_cache:
  assumes "create_cache_key ps = Inr k" and "k \<notin> fst ` set (geometry_cache s)"
  shows "\<exists>gr. geometry_cache (snd (provider_create_geometry b dt now ps s))
     = cache_geometry now k gr (geometry_cache s)"
proof -
  from key_ok_args_ok [OF assms(1)] obtain a where a: "builder_args ps = Inr a" by blast
  from assms(2) have n: "map_of (geometry_cache s) k = None"
    by (simp add: map_of_eq_None_iff)
  show ?thesis using assms(1) n a
    by (auto simp: provider_create_geometry_def Let_def)
qed

lemma cache_geometry_room:
  assumes "k \<notin> fst ` set c" and "length c < GEOMETRY_CACHE_SIZE"
  shows "cache_geometry now k gr c
     = c @ [(k, \<lparr>geometry_result = gr, timestamp = now, access_count = 0\<rparr>)]"
  using assms by (simp add: cache_geometry_def update_fresh)

lemma cache_geometry_full:
  assumes "k \<notin> fst ` set c" and "length c = GEOMETRY_CACHE_SIZE" and "distinct (map fst c)"
  shows "\<exists>j < length c.
       (\<forall>i < length c. timestamp (snd (c ! j)) \<le> timestamp (snd (c ! i)))
     \<and> (\<forall>i < j. timestamp (snd (c ! j)) < timestamp (snd (c ! i)))
     \<and> cache_geometry now k gr c
         = take j c @ drop (Suc j) c @ [(k, \<lparr>geometry_result = gr, timestamp = now, access_count = 0\<rparr>)]"
proof -
  from assms(2) obtain e es where c: "c = e # es"
    by (cases c) (auto simp: GEOMETRY_CACHE_SIZE_def)
  from oldest_entry_first_min [of es e]
  obtain j where j: "j \<le> length es" and o: "oldest_entry e es = (e # es) ! j"
    and mn: "\<forall>i \<le> length es. timestamp (snd ((e # es) ! j)) \<le> timestamp (snd ((e # es) ! i))"
    and fs: "\<forall>i < j. timestamp (snd ((e # es) ! j)) < timestamp (snd ((e # es) ! i))" by blast
  from j have jl: "j < length c" by (simp add: c)
  have d: "AList.delete (fst (oldest_entry e es)) c = take j c @ drop (Suc j) c"
    unfolding o c [symmetric] by (rule delete_nth_distinct [OF assms(3) jl])
  have sub: "set (take j c @ drop (Suc j) c) \<subseteq> set c"
    using set_take_subset [of j c] set_drop_subset [of "Suc j" c] by auto
  with assms(1) have fresh: "k \<notin> fst ` set (take j c @ drop (Suc j) c)" by blast
  have "cache_geometry now k gr c
     = AList.update k \<lparr>geometry_result = gr, timestamp = now, access_count = 0\<rparr>
         (take j c @ drop (Suc j) c)"
    using assms(2) c d by (simp add: cache_geometry_def)
  also have "\<dots> = (take j c @ drop (Suc j) c) @ [(k, \<lparr>geometry_result = gr, timestamp = now, access_count = 0\<rparr>)]"
    by (rule update_fresh [OF fresh])
  finally have eq: "cache_geometry now k gr c
     = take j c @ drop (Suc j) c @ [(k, \<lparr>geometry_result = gr, timestamp = now, access_count = 0\<rparr>)]"
    by simp
  have mn': "\<forall>i < length c. timestamp (snd (c ! j)) \<le> timestamp (snd (c ! i))"
    using mn by (simp add: c less_Suc_eq_le)
  have fs': "\<forall>i < j. timestamp (snd (c ! j)) < timestamp (snd (c ! i))"
    using fs by (simp add: c)
  from jl mn' fs' eq show ?thesis by blast
qed

text \<open>Calls with pairwise distinct keys fill an empty cache in call order, each entry
  stamped with the time of its call.\<close>

lemma fill_cache:
  assumes "map (\<lambda>c. create_cache_key (snd c)) calls = map Inr ks"
    and "distinct ks" and "length calls \<le> GEOMETRY_CACHE_SIZE"
  shows "map fst (geometry_cache (create_all (provider_create_geometry b dt) calls provider_init)) = ks
     \<and> map (\<lambda>e. timestamp (snd e)) (geometry_cache (create_all (provider_create_geometry b dt) calls provider_init))
         = map fst calls"
  using assms
proof (induction calls arbitrary: ks rule: rev_induct)
  case Nil
  then show ?case by (simp add: provider_init_def)
next
  case (snoc c calls)
  let ?s = "create_all (provider_create_geometry b dt) calls provider_init"
  from snoc.prems(1) obtain ks' k where ks: "ks = ks' @ [k]"
    and m: "map (\<lambda>c. create_cache_key (snd c)) calls = map Inr ks'"
    and ck: "create_cache_key (snd c) = Inr k"
    by (cases ks rule: rev_cases) auto
  from snoc.prems(2) ks have d: "distinct ks'" and nk: "k \<notin> set ks'" by auto
  from snoc.prems(3) have l: "length calls < GEOMETRY_CACHE_SIZE" by simp
  from snoc.IH [OF m d] l
  have ih1: "map fst (geometry_cache ?s) = ks'"
    and ih2: "map (\<lambda>e. timestamp (snd e)) (geometry_cache ?s) = map fst calls" by simp_all
  from ih1 nk have fresh: "k \<notin> fst ` set (geometry_cache ?s)"
    by (metis set_map)
  from ih2 l have room: "length (geometry_cache ?s) < GEOMETRY_CACHE_SIZE"
    by (metis length_map)
  from miss_cache [OF ck fresh, of b dt "fst c"]
  obtain gr where "geometry_cache (snd (provider_create_geometry b dt (fst c) (snd c) ?s))
     = cache_geometry (fst c) k gr (geometry_cache ?s)" by blast
  with cache_geometry_room [OF fresh room]
  have "geometry_cache (snd (provider_create_geometry b dt (fst c) (snd c) ?s))
     = geometry_cache ?s @ [(k, \<lparr>geometry_result = gr, timestamp = fst c, access_count = 0\<rparr>)]"
    by simp
  then show ?case
    by (simp add: create_all_append ih1 ih2 ks)
qed

lemma evict_after_fill:
  assumes keys: "map (\<lambda>c. create_cache_key (snd c)) (calls @ [(t, p)]) = map Inr ks"
    and dist: "distinct ks" and len: "length calls = GEOMETRY_CACHE_SIZE"
  shows "length (geometry_cache (create_all (provider_create_geometry b dt) calls provider_init)) = GEOMETRY_CACHE_SIZE
     \<and> (\<exists>j < GEOMETRY_CACHE_SIZE.
           (\<forall>i < GEOMETRY_CACHE_SIZE. fst (calls ! j) \<le> fst (calls ! i))
         \<and> (\<forall>i < j. fst (calls ! j) < fst (calls ! i))
         \<and> map fst (geometry_cache (create_all (provider_create_geometry b dt) (calls @ [(t, p)]) provider_init))
             = take j ks @ drop (Suc j) (butlast ks) @ [last ks])"
proof -
  let ?s = "create_all (provider_create_geometry b dt) calls provider_init"
  let ?c = "geometry_cache ?s"
  from keys obtain ks' k where ks: "ks = ks' @ [k]"
    and m: "map (\<lambda>c. create_cache_key (snd c)) calls = map Inr ks'"
    and ck: "create_cache_key p = Inr k"
    by (cases ks rule: rev_cases) auto
  from dist ks have d: "distinct ks'" and nk: "k \<notin> set ks'" by auto
  from len have le: "length calls \<le> GEOMETRY_CACHE_SIZE" by simp
  from fill_cache [OF m d le, of b dt]
  have f1: "map fst ?c = ks'" and f2: "map (\<lambda>e. timestamp (snd e)) ?c = map fst calls" by simp_all
  from f2 len have lc: "length ?c = GEOMETRY_CACHE_SIZE" by (metis length_map)
  from f1 nk have fresh: "k \<notin> fst ` set ?c" by (metis set_map)
  from f1 d have dc: "distinct (map fst ?c)" by simp
  from miss_cache [OF ck fresh, of b dt t]
  obtain gr where g: "geometry_cache (snd (provider_create_geometry b dt t p ?s))
     = cache_geometry t k gr ?c" by blast
  from cache_geometry_full [OF fresh lc dc, of t gr]
  obtain j where j: "j < length ?c"
    and mn: "\<forall>i < length ?c. timestamp (snd (?c ! j)) \<le> timestamp (snd (?c ! i))"
    and fs: "\<forall>i < j. timestamp (snd (?c ! j)) < timestamp (snd (?c ! i))"
    and eq: "cache_geometry t k gr ?c
       = take j ?c @ drop (Suc j) ?c @ [(k, \<lparr>geometry_result = gr, timestamp = t, access_count = 0\<rparr>)]"
    by blast
  have ts: "\<And>i. i < length ?c \<Longrightarrow> timestamp (snd (?c ! i)) = fst (calls ! i)"
  proof -
    fix i assume i: "i < length ?c"
    then have "map (\<lambda>e. timestamp (snd e)) ?c ! i = timestamp (snd (?c ! i))" by simp
    moreover from i lc len have "map fst calls ! i = fst (calls ! i)" by simp
    ultimately show "timestamp (snd (?c ! i)) = fst (calls ! i)" using f2 by simp
  qed
  have jN: "j < GEOMETRY_CACHE_SIZE" using j lc by simp
  have mn': "\<forall>i < GEOMETRY_CACHE_SIZE. fst (calls ! j) \<le> fst (calls ! i)"
    using mn ts j lc by simp
  have fs': "\<forall>i < j. fst (calls ! j) < fst (calls ! i)"
    using fs ts j by simp
  have "map fst (geometry_cache (create_all (provider_create_geometry b dt) (calls @ [(t, p)]) provider_init))
     = map fst (take j ?c @ drop (Suc j) ?c @ [(k, \<lparr>geometry_result = gr, timestamp = t, access_count = 0\<rparr>)])"
    by (simp add: create_all_append g eq)
  also have "\<dots> = take j ks' @ drop (Suc j) ks' @ [k]"
    by (simp add: take_map [symmetric] drop_map [symmetric] f1)
  also have "\<dots> = take j ks @ drop (Suc j) (butlast ks) @ [last ks]"
    using jN lc f1 by (simp add: ks) (metis length_map less_imp_le_nat)
  finally show ?thesis using lc jN mn' fs' by blast
qed


lemma key_count_params: "create_cache_key (count_params i) = Inr (count_key i)"
  by (simp add: create_cache_key_def count_params_def vaseDefaults_def err_bind_def param_get_def
      py_round_def round_half_even_def py_int_def Let_def count_key_def)

lemma distinct_count_keys: "distinct (map count_key [0..<n])"
  by (simp add: distinct_map inj_on_def count_key_def)

lemma keys_distinct_calls:
  "map (\<lambda>c. create_cache_key (snd c)) (distinct_calls n) = map Inr (map count_key [0..<n])"
  by (simp add: distinct_calls_def key_count_params comp_def)

lemma distinct_calls_Suc: "distinct_calls (Suc n) = distinct_calls n @ [(real n, count_params n)]"
  by (simp add: distinct_calls_def)

text \<open>
  C5.  Starting from a fresh provider (vase or table), the cache never holds more than
  \<open>GEOMETRY_CACHE_SIZE = 128\<close> entries, whatever calls are made.  After 128 calls with
  pairwise distinct keys the cache holds 128 entries; a further call with a new key leaves
  it at 128 entries, and the keys then cached are the earlier keys without the \<open>j\<close>-th,
  followed by the new key, where \<open>j\<close> is the first position of least timestamp (no call
  is older, and every call before it is strictly younger).
\<close>

theorem cache_capacity_and_eviction:
  assumes prov: "create = vase_create_geometry \<or> create = table_create_geometry"
    and keys: "map (\<lambda>c. create_cache_key (snd c)) (calls @ [(t, p)]) = map Inr ks"
    and dist: "distinct ks" and len: "length calls = GEOMETRY_CACHE_SIZE"
  shows "(\<forall>cs. length (geometry_cache (create_all create cs provider_init)) \<le> GEOMETRY_CACHE_SIZE)
     \<and> length (geometry_cache (create_all create calls provider_init)) = GEOMETRY_CACHE_SIZE
     \<and> length (geometry_cache (create_all create (calls @ [(t, p)]) provider_init)) = GEOMETRY_CACHE_SIZE
     \<and> (\<exists>j < GEOMETRY_CACHE_SIZE.
           (\<forall>i < GEOMETRY_CACHE_SIZE. fst (calls ! j) \<le> fst (calls ! i))
         \<and> (\<forall>i < j. fst (calls ! j) < fst (calls ! i))
         \<and> map fst (geometry_cache (create_all create (calls @ [(t, p)]) provider_init))
             = take j ks @ drop (Suc j) (butlast ks) @ [last ks])"
proof -
  from prov obtain b dt where c: "create = provider_create_geometry b dt"
    by (auto simp: vase_create_geometry_def table_create_geometry_def)
  have bound: "\<forall>cs. length (geometry_cache (create_all create cs provider_init)) \<le> GEOMETRY_CACHE_SIZE"
    unfolding c by (intro allI create_all_length) (simp add: provider_init_def)
  from evict_after_fill [OF keys dist len, of b dt]
  obtain j where full: "length (geometry_cache (create_all create calls provider_init)) = GEOMETRY_CACHE_SIZE"
    and j: "j < GEOMETRY_CACHE_SIZE"
    and mn: "\<forall>i < GEOMETRY_CACHE_SIZE. fst (calls ! j) \<le> fst (calls ! i)"
    and fs: "\<forall>i < j. fst (calls ! j) < fst (calls ! i)"
    and ev: "map fst (geometry_cache (create_all create (calls @ [(t, p)]) provider_init))
             = take j ks @ drop (Suc j) (butlast ks) @ [last ks]"
    unfolding c by blast
  from keys len have lk: "length ks = Suc GEOMETRY_CACHE_SIZE"
    by (metis length_append_singleton length_map)
  have "length (map fst (geometry_cache (create_all create (calls @ [(t, p)]) provider_init)))
      = GEOMETRY_CACHE_SIZE"
    unfolding ev using j lk by simp
  then have after: "length (geometry_cache (create_all create (calls @ [(t, p)]) provider_init))
      = GEOMETRY_CACHE_SIZE" by simp
  from bound full after j mn fs ev show ?thesis by blast
qed

theorem cache_capacity_and_eviction_witness:
  "length (distinct_calls 128) = GEOMETRY_CACHE_SIZE
   \<and> distinct (map count_key [0..<129])
   \<and> map (\<lambda>c. create_cache_key (snd c)) (distinct_calls 128 @ [(128, count_params 128)])
       = map Inr (map count_key [0..<129])
   \<and> length (geometry_cache (create_all vase_create_geometry (distinct_calls 128) provider_init)) = 128
   \<and> length (geometry_cache (create_all vase_create_geometry (distinct_calls 129) provider_init)) = 128
   \<and> map fst (geometry_cache (create_all vase_create_geometry (distinct_calls 129) provider_init))
       = map count_key [1..<129]"
proof -
  have e129: "distinct_calls 129 = distinct_calls 128 @ [(128, count_params 128)]"
    using distinct_calls_Suc [of 128] by simp
  have h1: "vase_create_geometry = vase_create_geometry \<or> vase_create_geometry = table_create_geometry"
    by simp
  have h2: "map (\<lambda>c. create_cache_key (snd c)) (distinct_calls 128 @ [(128, count_params 128)])
       = map Inr (map count_key [0..<129])"
    unfolding e129 [symmetric] by (rule keys_distinct_calls)
  have h3: "distinct (map count_key [0..<129])" by (rule distinct_count_keys)
  have h4: "length (distinct_calls 128) = GEOMETRY_CACHE_SIZE"
    by (simp add: distinct_calls_def GEOMETRY_CACHE_SIZE_def)
  from cache_capacity_and_eviction [OF h1 h2 h3 h4]
  obtain j where full: "length (geometry_cache (create_all vase_create_geometry (distinct_calls 128) provider_init)) = GEOMETRY_CACHE_SIZE"
    and after: "length (geometry_cache (create_all vase_create_geometry (distinct_calls 129) provider_init)) = GEOMETRY_CACHE_SIZE"
    and j: "j < GEOMETRY_CACHE_SIZE"
    and mn: "\<forall>i < GEOMETRY_CACHE_SIZE. fst (distinct_calls 128 ! j) \<le> fst (distinct_calls 128 ! i)"
    and ev: "map fst (geometry_cache (create_all vase_create_geometry (distinct_calls 129) provider_init))
             = take j (map count_key [0..<129]) @ drop (Suc j) (butlast (map count_key [0..<129]))
                 @ [last (map count_key [0..<129])]"
    unfolding e129 by blast
  from j have j128: "j < 128" by (simp add: GEOMETRY_CACHE_SIZE_def)
  from mn [rule_format, of 0] j128 have "j = 0"
    by (simp add: distinct_calls_def GEOMETRY_CACHE_SIZE_def)
  have bl: "butlast (map count_key [0..<129]) = map count_key [0..<128]"
    using butlast_snoc [of "map count_key [0..<128]" "count_key 128"] upt_Suc_append [of 0 128]
    by (simp add: map_butlast [symmetric])
  have la: "last (map count_key [0..<129]) = count_key 128"
    by (simp add: last_map)
  have "[1..<129] = [1..<128] @ [128::nat]" using upt_Suc_append [of 1 128] by simp
  then have sp: "map count_key [1..<129] = map count_key [1..<128] @ [count_key 128]" by simp
  have "map fst (geometry_cache (create_all vase_create_geometry (distinct_calls 129) provider_init))
      = map count_key [1..<129]"
    unfolding ev \<open>j = 0\<close> bl la sp by (simp add: drop_map)
  with h4 h3 h2 full after show ?thesis by (simp add: GEOMETRY_CACHE_SIZE_def)
qed

section \<open>The vase mesh: vertex rows, bounding box and index list\<close>

lemma py_min_Fin: "py_min (Fin m) (Fin x) = Fin (min x m)"
  by (simp add: py_min_def min_def)

lemma py_max_Fin: "py_max (Fin m) (Fin x) = Fin (max x m)"
  by (simp add: py_max_def max_def)

lemma bbox_of_snoc:
  "(bbox_of vd)\<lparr>min_x := py_min (min_x (bbox_of vd)) (Fin (vx v)),
                max_x := py_max (max_x (bbox_of vd)) (Fin (vx v)),
                min_y := py_min (min_y (bbox_of vd)) (Fin (vy v)),
                max_y := py_max (max_y (bbox_of vd)) (Fin (vy v)),
                min_z := py_min (min_z (bbox_of vd)) (Fin (vz v)),
                max_z := py_max (max_z (bbox_of vd)) (Fin (vz v))\<rparr> = bbox_of (vd @ [v])"
proof (cases "vd = []")
  case True
  then show ?thesis by (simp add: bbox_of_def bbox_init_def py_min_def py_max_def)
next
  case False
  then have ne: "\<And>f::vertex \<Rightarrow> real. f ` set vd \<noteq> {}" by simp
  have fin: "\<And>f::vertex \<Rightarrow> real. finite (f ` set vd)" by simp
  have mn: "\<And>f::vertex \<Rightarrow> real. Min (insert (f v) (f ` set vd)) = min (f v) (Min (f ` set vd))"
    using Min_insert [OF fin ne] by simp
  have mx: "\<And>f::vertex \<Rightarrow> real. Max (insert (f v) (f ` set vd)) = max (f v) (Max (f ` set vd))"
    using Max_insert [OF fin ne] by simp
  have l: "bbox_of vd = \<lparr>min_x = Fin (Min (vx ` set vd)), max_x = Fin (Max (vx ` set vd)),
            min_y = Fin (Min (vy ` set vd)), max_y = Fin (Max (vy ` set vd)),
            min_z = Fin (Min (vz ` set vd)), max_z = Fin (Max (vz ` set vd))\<rparr>"
    using False by (simp add: bbox_of_def)
  have r: "bbox_of (vd @ [v]) = \<lparr>min_x = Fin (min (vx v) (Min (vx ` set vd))),
            max_x = Fin (max (vx v) (Max (vx ` set vd))),
            min_y = Fin (min (vy v) (Min (vy ` set vd))),
            max_y = Fin (max (vy v) (Max (vy ` set vd))),
            min_z = Fin (min (vz v) (Min (vz ` set vd))),
            max_z = Fin (max (vz v) (Max (vz ` set vd)))\<rparr>"
    unfolding bbox_of_def by (simp only: mn mx set_append list.set image_Un image_insert
        Un_insert_right Un_empty_right image_empty append_is_Nil_conv not_Cons_self2 simp_thms if_False)
  show ?thesis unfolding l r
    by (simp only: bbox.simps bbox.update_convs py_min_Fin py_max_Fin)
qed

lemma add_vertex_tracks:
  "vase_add_vertex (vd, bbox_of vd) v = ((vd @ [v], bbox_of (vd @ [v])), length vd)"
  using bbox_of_snoc [of vd v]
  by (simp add: vase_add_vertex_def Let_def)

lemma vase_ring_fold:
  "fold (vase_ring_step r z nz) [0..<n] ((vd, bbox_of vd), ring) =
     ((vd @ map (vase_ring_vertex r z nz) [0..<n], bbox_of (vd @ map (vase_ring_vertex r z nz) [0..<n])),
      ring @ map (\<lambda>i. length vd + i) [0..<n])"
proof (induction n)
  case 0
  show ?case by simp
next
  case (Suc n)
  have "fold (vase_ring_step r z nz) [0..<Suc n] ((vd, bbox_of vd), ring)
      = vase_ring_step r z nz n (fold (vase_ring_step r z nz) [0..<n] ((vd, bbox_of vd), ring))"
    by simp
  also have "\<dots> = vase_ring_step r z nz n
      ((vd @ map (vase_ring_vertex r z nz) [0..<n], bbox_of (vd @ map (vase_ring_vertex r z nz) [0..<n])),
       ring @ map (\<lambda>i. length vd + i) [0..<n])"
    by (simp only: Suc)
  also have "\<dots> = ((vd @ map (vase_ring_vertex r z nz) [0..<Suc n],
        bbox_of (vd @ map (vase_ring_vertex r z nz) [0..<Suc n])),
      ring @ map (\<lambda>i. length vd + i) [0..<Suc n])"
    by (simp add: vase_ring_step_def Let_def add_vertex_tracks vase_ring_vertex_def)
  finally show ?case .
qed

lemma len_band_vertices: "length (concat (map (vase_band_vertices a wt h) xs)) = 4 * length xs"
  by (induction xs) (simp_all add: vase_band_vertices_def Let_def)

lemma band_vertex_step_eq:
  "vase_band_vertex_step a wt h i ((vd, bbox_of vd), ou, ol, iu, il) =
     ((vd @ vase_band_vertices a wt h i, bbox_of (vd @ vase_band_vertices a wt h i)),
      ou @ [length vd], ol @ [length vd + 1], iu @ [length vd + 2], il @ [length vd + 3])"
proof -
  have t: "\<And>vd v w. vase_add_vertex (vd, bbox_of vd) v = ((vd @ [v], bbox_of (vd @ [v])), length vd)"
    by (rule add_vertex_tracks)
  show ?thesis
    unfolding vase_band_vertex_step_def vase_band_vertices_def vase_band_z1_def vase_band_z2_def
    by (simp add: Let_def t)
qed

lemma vase_band_vertex_fold:
  "fold (vase_band_vertex_step a wt h) [0..<n] ((vd, bbox_of vd), ou, ol, iu, il) =
     ((vd @ concat (map (vase_band_vertices a wt h) [0..<n]),
       bbox_of (vd @ concat (map (vase_band_vertices a wt h) [0..<n]))),
      ou @ map (\<lambda>i. length vd + 4 * i) [0..<n],
      ol @ map (\<lambda>i. length vd + 4 * i + 1) [0..<n],
      iu @ map (\<lambda>i. length vd + 4 * i + 2) [0..<n],
      il @ map (\<lambda>i. length vd + 4 * i + 3) [0..<n])"
proof (induction n)
  case 0
  show ?case by simp
next
  case (Suc n)
  let ?vd = "vd @ concat (map (vase_band_vertices a wt h) [0..<n])"
  have len: "length ?vd = length vd + 4 * n"
    by (simp only: length_append len_band_vertices length_upt diff_zero)
  have "fold (vase_band_vertex_step a wt h) [0..<Suc n] ((vd, bbox_of vd), ou, ol, iu, il)
      = vase_band_vertex_step a wt h n
          (fold (vase_band_vertex_step a wt h) [0..<n] ((vd, bbox_of vd), ou, ol, iu, il))"
    by simp
  also have "\<dots> = vase_band_vertex_step a wt h n
     ((?vd, bbox_of ?vd),
      ou @ map (\<lambda>i. length vd + 4 * i) [0..<n],
      ol @ map (\<lambda>i. length vd + 4 * i + 1) [0..<n],
      iu @ map (\<lambda>i. length vd + 4 * i + 2) [0..<n],
      il @ map (\<lambda>i. length vd + 4 * i + 3) [0..<n])"
    by (simp only: Suc)
  also have "\<dots> = ((?vd @ vase_band_vertices a wt h n, bbox_of (?vd @ vase_band_vertices a wt h n)),
      ou @ map (\<lambda>i. length vd + 4 * i) [0..<Suc n],
      ol @ map (\<lambda>i. length vd + 4 * i + 1) [0..<Suc n],
      iu @ map (\<lambda>i. length vd + 4 * i + 2) [0..<Suc n],
      il @ map (\<lambda>i. length vd + 4 * i + 3) [0..<Suc n])"
    by (simp add: band_vertex_step_eq len_band_vertices del: length_concat)
  finally show ?case by simp
qed

lemma fold_snoc_concat:
  assumes "\<And>i idx. step i idx = idx @ f i"
  shows "fold step [0..<n] idx = idx @ concat (map f [0..<n])"
  by (induction n) (simp_all add: assms)

lemma concat_map_cong_upt:
  assumes "\<And>i. i < n \<Longrightarrow> f i = g i"
  shows "concat (map f [0..<n]) = concat (map g [0..<n])"
proof -
  have "map f [0..<n] = map g [0..<n]" using assms by simp
  then show ?thesis by (rule arg_cong)
qed

lemma nth_offsets:
  assumes "i < n"
  shows "map (\<lambda>i. b + c * i) [0..<n] ! i = b + c * i"
    and "map (\<lambda>i. b + c * i + d) [0..<n] ! i = b + c * i + d"
    and "map (\<lambda>i. b + i) [0..<n] ! i = b + i"
  using assms by simp_all

lemma vase_mod_lt: "(i + 1) mod vase_segments < vase_segments"
  by (simp add: vase_segments_def)

lemma vase_band_step_eq:
  "vase_band_step a wt h ((vd, bbox_of vd), idx) =
     ((vd @ concat (map (vase_band_vertices a wt h) [0..<vase_segments]),
       bbox_of (vd @ concat (map (vase_band_vertices a wt h) [0..<vase_segments]))),
      idx @ vase_band_tris vase_segments (length vd))"
proof -
  let ?N = vase_segments
  let ?ou = "map (\<lambda>i. length vd + 4 * i) [0..<?N]"
  let ?ol = "map (\<lambda>i. length vd + 4 * i + 1) [0..<?N]"
  let ?iu = "map (\<lambda>i. length vd + 4 * i + 2) [0..<?N]"
  let ?il = "map (\<lambda>i. length vd + 4 * i + 3) [0..<?N]"
  let ?b = "length vd"
  have v: "fold (vase_band_vertex_step a wt h) [0..<?N] ((vd, bbox_of vd), [], [], [], []) =
     ((vd @ concat (map (vase_band_vertices a wt h) [0..<?N]),
       bbox_of (vd @ concat (map (vase_band_vertices a wt h) [0..<?N]))), ?ou, ?ol, ?iu, ?il)"
    using vase_band_vertex_fold [of a wt h ?N vd "[]" "[]" "[]" "[]"] by simp
  have o: "\<And>idx. fold (vase_outer_quad_step ?ou ?ol) [0..<?N] idx = idx @
      concat (map (\<lambda>i. [(?b + 4 * i, ?b + 4 * i + 1, ?b + 4 * ((i + 1) mod ?N) + 1),
                        (?b + 4 * i, ?b + 4 * ((i + 1) mod ?N) + 1, ?b + 4 * ((i + 1) mod ?N))]) [0..<?N])"
  proof -
    fix idx
    have "fold (vase_outer_quad_step ?ou ?ol) [0..<?N] idx = idx @
        concat (map (\<lambda>i. [(?ou ! i, ?ol ! i, ?ol ! ((i + 1) mod ?N)),
                           (?ou ! i, ?ol ! ((i + 1) mod ?N), ?ou ! ((i + 1) mod ?N))]) [0..<?N])"
      by (rule fold_snoc_concat) (simp add: vase_outer_quad_step_def Let_def)
    also have "concat (map (\<lambda>i. [(?ou ! i, ?ol ! i, ?ol ! ((i + 1) mod ?N)),
                           (?ou ! i, ?ol ! ((i + 1) mod ?N), ?ou ! ((i + 1) mod ?N))]) [0..<?N])
        = concat (map (\<lambda>i. [(?b + 4 * i, ?b + 4 * i + 1, ?b + 4 * ((i + 1) mod ?N) + 1),
                        (?b + 4 * i, ?b + 4 * ((i + 1) mod ?N) + 1, ?b + 4 * ((i + 1) mod ?N))]) [0..<?N])"
      by (rule concat_map_cong_upt) (simp only: nth_offsets vase_mod_lt)
    finally show "fold (vase_outer_quad_step ?ou ?ol) [0..<?N] idx = idx @
      concat (map (\<lambda>i. [(?b + 4 * i, ?b + 4 * i + 1, ?b + 4 * ((i + 1) mod ?N) + 1),
                        (?b + 4 * i, ?b + 4 * ((i + 1) mod ?N) + 1, ?b + 4 * ((i + 1) mod ?N))]) [0..<?N])" .
  qed
  have n: "\<And>idx. fold (vase_inner_quad_step ?iu ?il) [0..<?N] idx = idx @
      concat (map (\<lambda>i. [(?b + 4 * i + 2, ?b + 4 * ((i + 1) mod ?N) + 2, ?b + 4 * i + 3),
                          (?b + 4 * i + 3, ?b + 4 * ((i + 1) mod ?N) + 2, ?b + 4 * ((i + 1) mod ?N) + 3)]) [0..<?N])"
  proof -
    fix idx
    have "fold (vase_inner_quad_step ?iu ?il) [0..<?N] idx = idx @
        concat (map (\<lambda>i. [(?iu ! i, ?iu ! ((i + 1) mod ?N), ?il ! i),
                           (?il ! i, ?iu ! ((i + 1) mod ?N), ?il ! ((i + 1) mod ?N))]) [0..<?N])"
      by (rule fold_snoc_concat) (simp add: vase_inner_quad_step_def Let_def)
    also have "concat (map (\<lambda>i. [(?iu ! i, ?iu ! ((i + 1) mod ?N), ?il ! i),
                           (?il ! i, ?iu ! ((i + 1) mod ?N), ?il ! ((i + 1) mod ?N))]) [0..<?N])
        = concat (map (\<lambda>i. [(?b + 4 * i + 2, ?b + 4 * ((i + 1) mod ?N) + 2, ?b + 4 * i + 3),
                          (?b + 4 * i + 3, ?b + 4 * ((i + 1) mod ?N) + 2, ?b + 4 * ((i + 1) mod ?N) + 3)]) [0..<?N])"
      by (rule concat_map_cong_upt) (simp only: nth_offsets vase_mod_lt)
    finally show "fold (vase_inner_quad_step ?iu ?il) [0..<?N] idx = idx @
      concat (map (\<lambda>i. [(?b + 4 * i + 2, ?b + 4 * ((i + 1) mod ?N) + 2, ?b + 4 * i + 3),
                          (?b + 4 * i + 3, ?b + 4 * ((i + 1) mod ?N) + 2, ?b + 4 * ((i + 1) mod ?N) + 3)]) [0..<?N])" .
  qed
  have w: "\<And>idx. fold (vase_wall_step ?ou ?ol ?iu ?il) [0..<?N] idx = idx @
      concat (map (\<lambda>i. [(?b + 4 * i, ?b + 4 * ((i + 1) mod ?N), ?b + 4 * i + 2),
                          (?b + 4 * i + 2, ?b + 4 * ((i + 1) mod ?N), ?b + 4 * ((i + 1) mod ?N) + 2),
                          (?b + 4 * i + 1, ?b + 4 * i + 3, ?b + 4 * ((i + 1) mod ?N) + 1),
                          (?b + 4 * i + 3, ?b + 4 * ((i + 1) mod ?N) + 3, ?b + 4 * ((i + 1) mod ?N) + 1)]) [0..<?N])"
  proof -
    fix idx
    have "fold (vase_wall_step ?ou ?ol ?iu ?il) [0..<?N] idx = idx @
        concat (map (\<lambda>i. [(?ou ! i, ?ou ! ((i + 1) mod ?N), ?iu ! i),
                           (?iu ! i, ?ou ! ((i + 1) mod ?N), ?iu ! ((i + 1) mod ?N)),
                           (?ol ! i, ?il ! i, ?ol ! ((i + 1) mod ?N)),
                           (?il ! i, ?il ! ((i + 1) mod ?N), ?ol ! ((i + 1) mod ?N))]) [0..<?N])"
      by (rule fold_snoc_concat) (simp add: vase_wall_step_def Let_def)
    also have "concat (map (\<lambda>i. [(?ou ! i, ?ou ! ((i + 1) mod ?N), ?iu ! i),
                           (?iu ! i, ?ou ! ((i + 1) mod ?N), ?iu ! ((i + 1) mod ?N)),
                           (?ol ! i, ?il ! i, ?ol ! ((i + 1) mod ?N)),
                           (?il ! i, ?il ! ((i + 1) mod ?N), ?ol ! ((i + 1) mod ?N))]) [0..<?N])
        = concat (map (\<lambda>i. [(?b + 4 * i, ?b + 4 * ((i + 1) mod ?N), ?b + 4 * i + 2),
                          (?b + 4 * i + 2, ?b + 4 * ((i + 1) mod ?N), ?b + 4 * ((i + 1) mod ?N) + 2),
                          (?b + 4 * i + 1, ?b + 4 * i + 3, ?b + 4 * ((i + 1) mod ?N) + 1),
                          (?b + 4 * i + 3, ?b + 4 * ((i + 1) mod ?N) + 3, ?b + 4 * ((i + 1) mod ?N) + 1)]) [0..<?N])"
      by (rule concat_map_cong_upt) (simp only: nth_offsets vase_mod_lt)
    finally show "fold (vase_wall_step ?ou ?ol ?iu ?il) [0..<?N] idx = idx @
      concat (map (\<lambda>i. [(?b + 4 * i, ?b + 4 * ((i + 1) mod ?N), ?b + 4 * i + 2),
                          (?b + 4 * i + 2, ?b + 4 * ((i + 1) mod ?N), ?b + 4 * ((i + 1) mod ?N) + 2),
                          (?b + 4 * i + 1, ?b + 4 * i + 3, ?b + 4 * ((i + 1) mod ?N) + 1),
                          (?b + 4 * i + 3, ?b + 4 * ((i + 1) mod ?N) + 3, ?b + 4 * ((i + 1) mod ?N) + 1)]) [0..<?N])" .
  qed
  show ?thesis
    unfolding vase_band_step_def
    by (simp only: prod.case v Let_def o n w vase_band_tris_def append_assoc)
qed

lemma len_bands_vertices:
  "length (concat (map (\<lambda>h. concat (map (vase_band_vertices a wt h) [0..<n])) xs)) = 4 * n * length xs"
  by (induction xs) (simp_all add: len_band_vertices del: length_concat)

lemma vase_bands_fold:
  "fold (vase_band_step a wt) [0..<m] ((vd, bbox_of vd), idx) =
     ((vd @ concat (map (\<lambda>h. concat (map (vase_band_vertices a wt h) [0..<vase_segments])) [0..<m]),
       bbox_of (vd @ concat (map (\<lambda>h. concat (map (vase_band_vertices a wt h) [0..<vase_segments])) [0..<m]))),
      idx @ concat (map (\<lambda>h. vase_band_tris vase_segments (length vd + 4 * vase_segments * h)) [0..<m]))"
proof (induction m)
  case 0
  show ?case by simp
next
  case (Suc m)
  let ?vd = "vd @ concat (map (\<lambda>h. concat (map (vase_band_vertices a wt h) [0..<vase_segments])) [0..<m])"
  have len: "length ?vd = length vd + 4 * vase_segments * m"
    by (simp only: length_append len_bands_vertices length_upt diff_zero)
  have "fold (vase_band_step a wt) [0..<Suc m] ((vd, bbox_of vd), idx)
      = vase_band_step a wt m (fold (vase_band_step a wt) [0..<m] ((vd, bbox_of vd), idx))"
    by simp
  also have "\<dots> = vase_band_step a wt m ((?vd, bbox_of ?vd),
      idx @ concat (map (\<lambda>h. vase_band_tris vase_segments (length vd + 4 * vase_segments * h)) [0..<m]))"
    by (simp only: Suc)
  also have "\<dots> = ((?vd @ concat (map (vase_band_vertices a wt m) [0..<vase_segments]),
       bbox_of (?vd @ concat (map (vase_band_vertices a wt m) [0..<vase_segments]))),
      (idx @ concat (map (\<lambda>h. vase_band_tris vase_segments (length vd + 4 * vase_segments * h)) [0..<m]))
        @ vase_band_tris vase_segments (length vd + 4 * vase_segments * m))"
    by (simp only: vase_band_step_eq len)
  finally show ?case by simp
qed

lemma bbox_init_empty: "bbox_init = bbox_of []"
  by (simp add: bbox_of_def)

lemma vase_cap_folds:
  "fold (vase_bottom_cap_step (map (\<lambda>i. 2 * vase_segments + i) [0..<vase_segments])
                              (map (\<lambda>i. 3 * vase_segments + i) [0..<vase_segments]))
      [0..<vase_segments]
      (fold (vase_top_cap_step (map (\<lambda>i. 0 + i) [0..<vase_segments])
                               (map (\<lambda>i. vase_segments + i) [0..<vase_segments]))
         [0..<vase_segments] [])
   = vase_cap_tris vase_segments"
proof -
  let ?N = vase_segments
  let ?to = "map (\<lambda>i. 0 + i) [0..<?N]"
  let ?ti = "map (\<lambda>i. ?N + i) [0..<?N]"
  let ?bo = "map (\<lambda>i. 2 * ?N + i) [0..<?N]"
  let ?bi = "map (\<lambda>i. 3 * ?N + i) [0..<?N]"
  have t: "fold (vase_top_cap_step ?to ?ti) [0..<?N] [] = [] @
      concat (map (\<lambda>i. [(?to ! i, ?ti ! i, ?ti ! ((i + 1) mod ?N)),
                         (?to ! i, ?ti ! ((i + 1) mod ?N), ?to ! ((i + 1) mod ?N))]) [0..<?N])"
    by (rule fold_snoc_concat) (simp add: vase_top_cap_step_def Let_def)
  have t': "concat (map (\<lambda>i. [(?to ! i, ?ti ! i, ?ti ! ((i + 1) mod ?N)),
                         (?to ! i, ?ti ! ((i + 1) mod ?N), ?to ! ((i + 1) mod ?N))]) [0..<?N])
      = concat (map (\<lambda>i. [(0 + i, ?N + i, ?N + (i + 1) mod ?N),
                           (0 + i, ?N + (i + 1) mod ?N, 0 + (i + 1) mod ?N)]) [0..<?N])"
    by (rule concat_map_cong_upt) (simp only: nth_offsets vase_mod_lt)
  have b: "\<And>idx. fold (vase_bottom_cap_step ?bo ?bi) [0..<?N] idx = idx @
      concat (map (\<lambda>i. [(?bo ! i, ?bi ! ((i + 1) mod ?N), ?bi ! i),
                         (?bo ! i, ?bo ! ((i + 1) mod ?N), ?bi ! ((i + 1) mod ?N))]) [0..<?N])"
    by (rule fold_snoc_concat) (simp add: vase_bottom_cap_step_def Let_def)
  have b': "concat (map (\<lambda>i. [(?bo ! i, ?bi ! ((i + 1) mod ?N), ?bi ! i),
                         (?bo ! i, ?bo ! ((i + 1) mod ?N), ?bi ! ((i + 1) mod ?N))]) [0..<?N])
      = concat (map (\<lambda>i. [(2 * ?N + i, 3 * ?N + (i + 1) mod ?N, 3 * ?N + i),
                           (2 * ?N + i, 2 * ?N + (i + 1) mod ?N, 3 * ?N + (i + 1) mod ?N)]) [0..<?N])"
    by (rule concat_map_cong_upt) (simp only: nth_offsets vase_mod_lt)
  show ?thesis
    unfolding t b t' b' vase_cap_tris_def by simp
qed

lemma vase_build_eq:
  "vase_build a wt =
     ((vase_vertices a wt, bbox_of (vase_vertices a wt)), vase_tris vase_segments vase_height_segments)"
proof -
  let ?N = vase_segments
  let ?r1 = "map (vase_ring_vertex (\<lambda>angle. vase_get_surface_modulation a angle 1.0) (vase_height / 2.0) 1) [0..<?N]"
  let ?r2 = "map (vase_ring_vertex (\<lambda>angle. get_inner_surface_modulation a wt angle 1.0) (vase_height / 2.0) 1) [0..<?N]"
  let ?r3 = "map (vase_ring_vertex (\<lambda>angle. vase_get_surface_modulation a angle 0.0) (- (vase_height / 2.0)) (-1)) [0..<?N]"
  let ?r4 = "map (vase_ring_vertex (\<lambda>angle. get_inner_surface_modulation a wt angle 0.0) (- (vase_height / 2.0)) (-1)) [0..<?N]"
  have f1: "fold (vase_ring_step (\<lambda>angle. vase_get_surface_modulation a angle 1.0) (vase_height / 2.0) 1)
      [0..<?N] (([], bbox_init), []) = ((?r1, bbox_of ?r1), map (\<lambda>i. 0 + i) [0..<?N])"
    using vase_ring_fold [of _ _ _ ?N "[]" "[]"] by (simp add: bbox_init_empty)
  have f2: "fold (vase_ring_step (\<lambda>angle. get_inner_surface_modulation a wt angle 1.0) (vase_height / 2.0) 1)
      [0..<?N] ((?r1, bbox_of ?r1), []) = ((?r1 @ ?r2, bbox_of (?r1 @ ?r2)), map (\<lambda>i. ?N + i) [0..<?N])"
    using vase_ring_fold [of _ _ _ ?N ?r1 "[]"] by simp
  have f3: "fold (vase_ring_step (\<lambda>angle. vase_get_surface_modulation a angle 0.0) (- (vase_height / 2.0)) (-1))
      [0..<?N] ((?r1 @ ?r2, bbox_of (?r1 @ ?r2)), [])
       = (((?r1 @ ?r2) @ ?r3, bbox_of ((?r1 @ ?r2) @ ?r3)), map (\<lambda>i. 2 * ?N + i) [0..<?N])"
    using vase_ring_fold [of _ _ _ ?N "?r1 @ ?r2" "[]"] by simp
  have f4: "fold (vase_ring_step (\<lambda>angle. get_inner_surface_modulation a wt angle 0.0) (- (vase_height / 2.0)) (-1))
      [0..<?N] (((?r1 @ ?r2) @ ?r3, bbox_of ((?r1 @ ?r2) @ ?r3)), [])
       = ((((?r1 @ ?r2) @ ?r3) @ ?r4, bbox_of (((?r1 @ ?r2) @ ?r3) @ ?r4)), map (\<lambda>i. 3 * ?N + i) [0..<?N])"
    using vase_ring_fold [of _ _ _ ?N "(?r1 @ ?r2) @ ?r3" "[]"] by simp
  have l4: "length (((?r1 @ ?r2) @ ?r3) @ ?r4) = 4 * ?N" by simp
  show ?thesis
    unfolding vase_build_def
    apply (simp only: Let_def prod.case f1 f2 f3 f4 vase_cap_folds vase_bands_fold l4)
    apply (simp only: vase_vertices_def vase_tris_def append_assoc)
    done
qed

lemma vz_ring: "vz (vase_ring_vertex r z nz i) = z"
  by (simp add: vase_ring_vertex_def Let_def)

lemma vz_band:
  "v \<in> set (vase_band_vertices a wt h i) \<Longrightarrow> vz v = vase_band_z1 h \<or> vz v = vase_band_z2 h"
  by (auto simp: vase_band_vertices_def Let_def)

lemma band_z_range:
  assumes "h < vase_height_segments"
  shows "- (vase_height / 2) \<le> vase_band_z1 h" "vase_band_z1 h \<le> vase_height / 2"
    "- (vase_height / 2) \<le> vase_band_z2 h" "vase_band_z2 h \<le> vase_height / 2"
  using assms
  by (simp_all add: vase_band_z1_def vase_band_z2_def vase_height_def vase_height_segments_def)

lemma ring_z:
  assumes "v \<in> set (map (vase_ring_vertex r z nz) xs)" and "z = vase_height / 2 \<or> z = - (vase_height / 2)"
  shows "- (vase_height / 2) \<le> vz v \<and> vz v \<le> vase_height / 2"
proof -
  have hp: "0 \<le> vase_height" by (simp add: vase_height_def)
  from assms(1) obtain i where "v = vase_ring_vertex r z nz i" by auto
  then have "vz v = z" by (simp add: vz_ring)
  with assms(2) hp show ?thesis by auto
qed

lemma bands_z:
  assumes "v \<in> set (concat (map (\<lambda>h. concat (map (vase_band_vertices a wt h) [0..<n])) [0..<vase_height_segments]))"
  shows "- (vase_height / 2) \<le> vz v \<and> vz v \<le> vase_height / 2"
proof -
  from assms obtain h i where h: "h < vase_height_segments"
    and i: "v \<in> set (vase_band_vertices a wt h i)" by auto
  from vz_band [OF i] band_z_range [OF h] show ?thesis by auto
qed

lemma vase_vertices_z:
  assumes "v \<in> set (vase_vertices a wt)"
  shows "- (vase_height / 2) \<le> vz v \<and> vz v \<le> vase_height / 2"
proof -
  let ?r1 = "map (vase_ring_vertex (\<lambda>angle. vase_get_surface_modulation a angle 1.0) (vase_height / 2.0) 1) [0..<vase_segments]"
  let ?r2 = "map (vase_ring_vertex (\<lambda>angle. get_inner_surface_modulation a wt angle 1.0) (vase_height / 2.0) 1) [0..<vase_segments]"
  let ?r3 = "map (vase_ring_vertex (\<lambda>angle. vase_get_surface_modulation a angle 0.0) (- (vase_height / 2.0)) (-1)) [0..<vase_segments]"
  let ?r4 = "map (vase_ring_vertex (\<lambda>angle. get_inner_surface_modulation a wt angle 0.0) (- (vase_height / 2.0)) (-1)) [0..<vase_segments]"
  let ?bs = "concat (map (\<lambda>h. concat (map (vase_band_vertices a wt h) [0..<vase_segments])) [0..<vase_height_segments])"
  from assms have "v \<in> set ?r1 \<or> v \<in> set ?r2 \<or> v \<in> set ?r3 \<or> v \<in> set ?r4 \<or> v \<in> set ?bs"
    unfolding vase_vertices_def by (simp only: set_append Un_iff)
  moreover have "v \<in> set ?r1 \<Longrightarrow> ?thesis"
  proof -
    assume m: "v \<in> set ?r1"
    show ?thesis by (rule ring_z [OF m]) simp
  qed
  moreover have "v \<in> set ?r2 \<Longrightarrow> ?thesis"
  proof -
    assume m: "v \<in> set ?r2"
    show ?thesis by (rule ring_z [OF m]) simp
  qed
  moreover have "v \<in> set ?r3 \<Longrightarrow> ?thesis"
  proof -
    assume m: "v \<in> set ?r3"
    show ?thesis by (rule ring_z [OF m]) simp
  qed
  moreover have "v \<in> set ?r4 \<Longrightarrow> ?thesis"
  proof -
    assume m: "v \<in> set ?r4"
    show ?thesis by (rule ring_z [OF m]) simp
  qed
  moreover have "v \<in> set ?bs \<Longrightarrow> ?thesis" by (rule bands_z)
  ultimately show ?thesis by blast
qed

lemma vase_vertices_top: "vase_ring_vertex (\<lambda>angle. vase_get_surface_modulation a angle 1.0) (vase_height / 2.0) 1 0
    \<in> set (vase_vertices a wt)"
  by (simp add: vase_vertices_def vase_segments_def)

lemma vase_vertices_bottom:
  "vase_ring_vertex (\<lambda>angle. vase_get_surface_modulation a angle 0.0) (- (vase_height / 2.0)) (-1) 0
    \<in> set (vase_vertices a wt)"
  by (simp add: vase_vertices_def vase_segments_def)

lemma vase_vertices_nonempty: "vase_vertices a wt \<noteq> []"
  using vase_vertices_top [of a wt] by auto

lemma vase_z_extent:
  "Max (vz ` set (vase_vertices a wt)) = vase_height / 2"
  "Min (vz ` set (vase_vertices a wt)) = - (vase_height / 2)"
proof -
  let ?A = "vz ` set (vase_vertices a wt)"
  have fin: "finite ?A" by simp
  have top: "vase_height / 2 \<in> ?A"
  proof -
    have "vz (vase_ring_vertex (\<lambda>angle. vase_get_surface_modulation a angle 1.0) (vase_height / 2.0) 1 0)
       = vase_height / 2" by (simp add: vz_ring)
    with vase_vertices_top [of a wt] show ?thesis by (metis image_eqI)
  qed
  show "Max ?A = vase_height / 2"
  proof (rule Max_eqI [OF fin])
    fix y assume "y \<in> ?A"
    then show "y \<le> vase_height / 2" using vase_vertices_z by auto
  next
    show "vase_height / 2 \<in> ?A" by (rule top)
  qed
  have bot: "- (vase_height / 2) \<in> ?A"
  proof -
    have "vz (vase_ring_vertex (\<lambda>angle. vase_get_surface_modulation a angle 0.0) (- (vase_height / 2.0)) (-1) 0)
       = - (vase_height / 2)" by (simp add: vz_ring)
    with vase_vertices_bottom [of a wt] show ?thesis by (metis image_eqI)
  qed
  show "Min ?A = - (vase_height / 2)"
  proof (rule Min_eqI [OF fin])
    fix y assume "y \<in> ?A"
    then show "- (vase_height / 2) \<le> y" using vase_vertices_z by auto
  next
    show "- (vase_height / 2) \<in> ?A" by (rule bot)
  qed
qed

lemma vaseGeometry_eq:
  "vaseGeometry a wt =
     (''Vase'', \<lparr>vdata = vase_vertices a wt, tris = vase_tris vase_segments vase_height_segments\<rparr>,
      vase_height,
      Fin (Max (vx ` set (vase_vertices a wt)) - Min (vx ` set (vase_vertices a wt))))"
  using vase_vertices_nonempty [of a wt]
  by (simp add: vaseGeometry_def vase_build_eq Let_def bbox_of_def)

lemma vase_height_actual_eq: "vase_height_actual a wt = Fin vase_height"
  using vase_vertices_nonempty [of a wt]
  by (simp add: vase_height_actual_def vase_build_eq bbox_of_def vase_z_extent)

text \<open>A hand-computed case: with two grooves of depth 1 on a base width of 2.5 the outer
  radius is \<open>2.5 + 0.06 * cos (2 * phi)\<close>, largest (2.56) at the angles 0 and \<open>pi\<close>, both of
  which are sampled; so the \<open>x\<close> coordinates range over \<open>[-2.56, 2.56]\<close>.\<close>

lemma groove_sample_outer:
  "vase_get_surface_modulation groove_sample_args phi lr = 2.5 + 0.06 * cos (2 * phi)"
  by (simp add: vase_get_surface_modulation_def groove_sample_args_def Let_def)

lemma groove_sample_inner:
  "get_inner_surface_modulation groove_sample_args 0.5 phi lr = 2 + 0.06 * cos (2 * phi)"
  by (simp add: get_inner_surface_modulation_def groove_sample_args_def Let_def)

lemma radius_times_cos:
  fixes r c :: real
  assumes "0 \<le> r" and "r \<le> R" and "- 1 \<le> c" and "c \<le> 1"
  shows "- R \<le> r * c \<and> r * c \<le> R"
proof -
  have "\<bar>r * c\<bar> = \<bar>r\<bar> * \<bar>c\<bar>" by (rule abs_mult)
  also have "\<dots> \<le> R * 1"
    using assms by (intro mult_mono) auto
  finally show ?thesis by (auto simp: abs_le_iff)
qed

lemma groove_sample_x_bound:
  fixes phi psi :: real
  shows "- 2.56 \<le> (2.5 + 0.06 * cos psi) * cos phi \<and> (2.5 + 0.06 * cos psi) * cos phi \<le> 2.56"
    and "- 2.56 \<le> (2 + 0.06 * cos psi) * cos phi \<and> (2 + 0.06 * cos psi) * cos phi \<le> 2.56"
proof -
  have c: "- 1 \<le> cos psi" "cos psi \<le> 1" "- 1 \<le> cos phi" "cos phi \<le> 1" by simp_all
  have g: "\<And>x::real. - 1 \<le> x \<Longrightarrow> x \<le> 1 \<Longrightarrow>
      0 \<le> 2.5 + 0.06 * x \<and> 2.5 + 0.06 * x \<le> 2.56 \<and> 0 \<le> 2 + 0.06 * x \<and> 2 + 0.06 * x \<le> 2.56"
    by simp
  have "0 \<le> 2.5 + 0.06 * cos psi" "2.5 + 0.06 * cos psi \<le> 2.56"
    using g [OF c(1,2)] by blast+
  from radius_times_cos [OF this c(3,4)]
  show "- 2.56 \<le> (2.5 + 0.06 * cos psi) * cos phi \<and> (2.5 + 0.06 * cos psi) * cos phi \<le> 2.56" .
  have "0 \<le> 2 + 0.06 * cos psi" "2 + 0.06 * cos psi \<le> 2.56"
    using g [OF c(1,2)] by blast+
  from radius_times_cos [OF this c(3,4)]
  show "- 2.56 \<le> (2 + 0.06 * cos psi) * cos phi \<and> (2 + 0.06 * cos psi) * cos phi \<le> 2.56" .
qed

lemma groove_sample_ring_x:
  assumes "v \<in> set (map (vase_ring_vertex r z nz) xs)"
    and "r = (\<lambda>angle. vase_get_surface_modulation groove_sample_args angle lr)
       \<or> r = (\<lambda>angle. get_inner_surface_modulation groove_sample_args 0.5 angle lr)"
  shows "- 2.56 \<le> vx v \<and> vx v \<le> 2.56"
proof -
  from assms(1) obtain i where v: "v = vase_ring_vertex r z nz i" by auto
  from assms(2) show ?thesis
  proof
    assume "r = (\<lambda>angle. vase_get_surface_modulation groove_sample_args angle lr)"
    then show ?thesis unfolding v vase_ring_vertex_def Let_def vertex.sel groove_sample_outer
      by (simp only: groove_sample_x_bound)
  next
    assume "r = (\<lambda>angle. get_inner_surface_modulation groove_sample_args 0.5 angle lr)"
    then show ?thesis unfolding v vase_ring_vertex_def Let_def vertex.sel groove_sample_inner
      by (simp only: groove_sample_x_bound)
  qed
qed

lemma groove_sample_band_x:
  assumes "v \<in> set (vase_band_vertices groove_sample_args 0.5 h i)"
  shows "- 2.56 \<le> vx v \<and> vx v \<le> 2.56"
proof -
  from assms have "(\<exists>psi phi. vx v = (2.5 + 0.06 * cos psi) * cos phi)
      \<or> (\<exists>psi phi. vx v = (2 + 0.06 * cos psi) * cos phi)"
    unfolding vase_band_vertices_def Let_def groove_sample_outer groove_sample_inner
    by (simp only: list.set insert_iff empty_iff) (elim disjE; simp; blast)
  then show ?thesis using groove_sample_x_bound by metis
qed

lemma groove_sample_x:
  assumes "v \<in> set (vase_vertices groove_sample_args 0.5)"
  shows "- 2.56 \<le> vx v \<and> vx v \<le> 2.56"
proof -
  let ?a = groove_sample_args
  let ?r1 = "map (vase_ring_vertex (\<lambda>angle. vase_get_surface_modulation ?a angle 1.0) (vase_height / 2.0) 1) [0..<vase_segments]"
  let ?r2 = "map (vase_ring_vertex (\<lambda>angle. get_inner_surface_modulation ?a 0.5 angle 1.0) (vase_height / 2.0) 1) [0..<vase_segments]"
  let ?r3 = "map (vase_ring_vertex (\<lambda>angle. vase_get_surface_modulation ?a angle 0.0) (- (vase_height / 2.0)) (-1)) [0..<vase_segments]"
  let ?r4 = "map (vase_ring_vertex (\<lambda>angle. get_inner_surface_modulation ?a 0.5 angle 0.0) (- (vase_height / 2.0)) (-1)) [0..<vase_segments]"
  let ?bs = "concat (map (\<lambda>h. concat (map (vase_band_vertices ?a 0.5 h) [0..<vase_segments])) [0..<vase_height_segments])"
  from assms have "v \<in> set ?r1 \<or> v \<in> set ?r2 \<or> v \<in> set ?r3 \<or> v \<in> set ?r4 \<or> v \<in> set ?bs"
    unfolding vase_vertices_def by (simp only: set_append Un_iff)
  moreover have "v \<in> set ?r1 \<Longrightarrow> ?thesis"
  proof -
    assume m: "v \<in> set ?r1"
    show ?thesis by (rule groove_sample_ring_x [OF m, where lr="1.0"]) (rule disjI1, rule refl)
  qed
  moreover have "v \<in> set ?r2 \<Longrightarrow> ?thesis"
  proof -
    assume m: "v \<in> set ?r2"
    show ?thesis by (rule groove_sample_ring_x [OF m, where lr="1.0"]) (rule disjI2, rule refl)
  qed
  moreover have "v \<in> set ?r3 \<Longrightarrow> ?thesis"
  proof -
    assume m: "v \<in> set ?r3"
    show ?thesis by (rule groove_sample_ring_x [OF m, where lr="0.0"]) (rule disjI1, rule refl)
  qed
  moreover have "v \<in> set ?r4 \<Longrightarrow> ?thesis"
  proof -
    assume m: "v \<in> set ?r4"
    show ?thesis by (rule groove_sample_ring_x [OF m, where lr="0.0"]) (rule disjI2, rule refl)
  qed
  moreover have "v \<in> set ?bs \<Longrightarrow> ?thesis"
  proof -
    assume "v \<in> set ?bs"
    then obtain h i where "v \<in> set (vase_band_vertices ?a 0.5 h i)" by auto
    then show ?thesis by (rule groove_sample_band_x)
  qed
  ultimately show ?thesis by blast
qed

lemma groove_sample_x_max: "2.56 \<in> vx ` set (vase_vertices groove_sample_args 0.5)"
proof -
  let ?v = "vase_ring_vertex (\<lambda>angle. vase_get_surface_modulation groove_sample_args angle 1.0) (vase_height / 2.0) 1 0"
  have "?v \<in> set (vase_vertices groove_sample_args 0.5)"
    by (simp add: vase_vertices_def vase_segments_def)
  moreover have "vx ?v = 2.56"
    by (simp add: vase_ring_vertex_def Let_def groove_sample_outer)
  ultimately show ?thesis by (metis image_eqI)
qed

lemma groove_sample_x_min: "- 2.56 \<in> vx ` set (vase_vertices groove_sample_args 0.5)"
proof -
  let ?v = "vase_ring_vertex (\<lambda>angle. vase_get_surface_modulation groove_sample_args angle 1.0) (vase_height / 2.0) 1 20"
  have "(20::nat) \<in> set [0..<vase_segments]" by (simp add: vase_segments_def)
  then have "?v \<in> set (map (vase_ring_vertex (\<lambda>angle. vase_get_surface_modulation groove_sample_args angle 1.0) (vase_height / 2.0) 1) [0..<vase_segments])"
    by (simp only: set_map image_eqI)
  then have "?v \<in> set (vase_vertices groove_sample_args 0.5)"
    unfolding vase_vertices_def by (simp only: set_append Un_iff simp_thms)
  moreover have "vx ?v = - 2.56"
  proof -
    have a: "(2.0 * pi * real (20::nat)) / real vase_segments = pi"
      by (simp add: vase_segments_def)
    show ?thesis
      unfolding vase_ring_vertex_def Let_def a groove_sample_outer by simp
  qed
  ultimately show ?thesis by (metis image_eqI)
qed

lemma groove_sample_extent:
  "Max (vx ` set (vase_vertices groove_sample_args 0.5)) = 2.56"
  "Min (vx ` set (vase_vertices groove_sample_args 0.5)) = - 2.56"
proof -
  let ?A = "vx ` set (vase_vertices groove_sample_args 0.5)"
  have fin: "finite ?A" by simp
  show "Max ?A = 2.56"
  proof (rule Max_eqI [OF fin])
    fix y assume "y \<in> ?A"
    then show "y \<le> 2.56" using groove_sample_x by auto
  next
    show "2.56 \<in> ?A" by (rule groove_sample_x_max)
  qed
  show "Min ?A = - 2.56"
  proof (rule Min_eqI [OF fin])
    fix y assume "y \<in> ?A"
    then show "- 2.56 \<le> y" using groove_sample_x by auto
  next
    show "- 2.56 \<in> ?A" by (rule groove_sample_x_min)
  qed
qed

lemma groove_sample_diameter:
  "snd (snd (snd (vaseGeometry groove_sample_args 0.5))) = Fin 5.12"
proof -
  have "snd (snd (snd (vaseGeometry groove_sample_args 0.5)))
      = Fin (Max (vx ` set (vase_vertices groove_sample_args 0.5))
           - Min (vx ` set (vase_vertices groove_sample_args 0.5)))"
    by (simp only: vaseGeometry_eq snd_conv)
  also have "\<dots> = Fin (2.56 - (- 2.56))" by (simp only: groove_sample_extent)
  also have "\<dots> = Fin 5.12" by simp
  finally show ?thesis .
qed

lemma groove_cubic:
  fixes s :: real
  assumes "- 1 \<le> s" and "s \<le> 1"
  shows "- 2.44 \<le> (2.5 + 0.06 * (1 - 2 * s\<^sup>2)) * s \<and> (2.5 + 0.06 * (1 - 2 * s\<^sup>2)) * s \<le> 2.44"
proof -
  from assms have s2: "s\<^sup>2 \<le> 1" by (simp add: abs_square_le_1 abs_le_iff)
  have u: "2.44 - (2.5 + 0.06 * (1 - 2 * s\<^sup>2)) * s = (1 - s) * (2.44 - 0.12 * s - 0.12 * s\<^sup>2)"
    by (simp add: power2_eq_square field_simps)
  have l: "(2.5 + 0.06 * (1 - 2 * s\<^sup>2)) * s + 2.44 = (1 + s) * (2.44 + 0.12 * s - 0.12 * s\<^sup>2)"
    by (simp add: power2_eq_square field_simps)
  from assms s2 have "0 \<le> 2.44 - 0.12 * s - 0.12 * s\<^sup>2" "0 \<le> 2.44 + 0.12 * s - 0.12 * s\<^sup>2"
    by simp_all
  moreover from assms have "0 \<le> 1 - s" "0 \<le> 1 + s" by simp_all
  ultimately have "0 \<le> (1 - s) * (2.44 - 0.12 * s - 0.12 * s\<^sup>2)"
    "0 \<le> (1 + s) * (2.44 + 0.12 * s - 0.12 * s\<^sup>2)"
    by (simp_all only: mult_nonneg_nonneg)
  with u l show ?thesis by linarith
qed

lemma groove_sample_y_bound:
  fixes phi :: real
  shows "- 2.44 \<le> (2.5 + 0.06 * cos (2 * phi)) * sin phi \<and> (2.5 + 0.06 * cos (2 * phi)) * sin phi \<le> 2.44"
    and "- 2.44 \<le> (2 + 0.06 * cos (2 * phi)) * sin phi \<and> (2 + 0.06 * cos (2 * phi)) * sin phi \<le> 2.44"
proof -
  have s: "- 1 \<le> sin phi" "sin phi \<le> 1" by simp_all
  from groove_cubic [OF s]
  show "- 2.44 \<le> (2.5 + 0.06 * cos (2 * phi)) * sin phi \<and> (2.5 + 0.06 * cos (2 * phi)) * sin phi \<le> 2.44"
    by (simp only: cos_double_sin)
  have g: "\<And>x::real. - 1 \<le> x \<Longrightarrow> x \<le> 1 \<Longrightarrow> 0 \<le> 2 + 0.06 * x \<and> 2 + 0.06 * x \<le> 2.44"
    by simp
  have c: "- 1 \<le> cos (2 * phi)" "cos (2 * phi) \<le> 1" by simp_all
  from g [OF c] have "0 \<le> 2 + 0.06 * cos (2 * phi)" "2 + 0.06 * cos (2 * phi) \<le> 2.44" by blast+
  from radius_times_cos [OF this s]
  show "- 2.44 \<le> (2 + 0.06 * cos (2 * phi)) * sin phi \<and> (2 + 0.06 * cos (2 * phi)) * sin phi \<le> 2.44" .
qed

lemma groove_sample_ring_y:
  assumes "v \<in> set (map (vase_ring_vertex r z nz) xs)"
    and "r = (\<lambda>angle. vase_get_surface_modulation groove_sample_args angle lr)
       \<or> r = (\<lambda>angle. get_inner_surface_modulation groove_sample_args 0.5 angle lr)"
  shows "- 2.44 \<le> vy v \<and> vy v \<le> 2.44"
proof -
  from assms(1) obtain i where v: "v = vase_ring_vertex r z nz i" by auto
  from assms(2) show ?thesis
  proof
    assume "r = (\<lambda>angle. vase_get_surface_modulation groove_sample_args angle lr)"
    then show ?thesis unfolding v vase_ring_vertex_def Let_def vertex.sel groove_sample_outer
      by (simp only: groove_sample_y_bound)
  next
    assume "r = (\<lambda>angle. get_inner_surface_modulation groove_sample_args 0.5 angle lr)"
    then show ?thesis unfolding v vase_ring_vertex_def Let_def vertex.sel groove_sample_inner
      by (simp only: groove_sample_y_bound)
  qed
qed

lemma groove_sample_band_y:
  assumes "v \<in> set (vase_band_vertices groove_sample_args 0.5 h i)"
  shows "- 2.44 \<le> vy v \<and> vy v \<le> 2.44"
proof -
  define phi where "phi = (2.0 * pi * real i) / real vase_segments"
  have inner: "\<And>psi lr. get_inner_surface_modulation groove_sample_args (1 / 2) psi lr
      = 2 + 0.06 * cos (2 * psi)"
    using groove_sample_inner by simp
  from assms have "vy v = (2.5 + 0.06 * cos (2 * phi)) * sin phi
      \<or> vy v = (2 + 0.06 * cos (2 * phi)) * sin phi"
    by (auto simp: vase_band_vertices_def Let_def groove_sample_outer inner phi_def)
  then show ?thesis
  proof
    assume e: "vy v = (2.5 + 0.06 * cos (2 * phi)) * sin phi"
    show ?thesis unfolding e by (rule groove_sample_y_bound(1))
  next
    assume e: "vy v = (2 + 0.06 * cos (2 * phi)) * sin phi"
    show ?thesis unfolding e by (rule groove_sample_y_bound(2))
  qed
qed

lemma groove_sample_y:
  assumes "v \<in> set (vase_vertices groove_sample_args 0.5)"
  shows "- 2.44 \<le> vy v \<and> vy v \<le> 2.44"
proof -
  let ?a = groove_sample_args
  let ?r1 = "map (vase_ring_vertex (\<lambda>angle. vase_get_surface_modulation ?a angle 1.0) (vase_height / 2.0) 1) [0..<vase_segments]"
  let ?r2 = "map (vase_ring_vertex (\<lambda>angle. get_inner_surface_modulation ?a 0.5 angle 1.0) (vase_height / 2.0) 1) [0..<vase_segments]"
  let ?r3 = "map (vase_ring_vertex (\<lambda>angle. vase_get_surface_modulation ?a angle 0.0) (- (vase_height / 2.0)) (-1)) [0..<vase_segments]"
  let ?r4 = "map (vase_ring_vertex (\<lambda>angle. get_inner_surface_modulation ?a 0.5 angle 0.0) (- (vase_height / 2.0)) (-1)) [0..<vase_segments]"
  let ?bs = "concat (map (\<lambda>h. concat (map (vase_band_vertices ?a 0.5 h) [0..<vase_segments])) [0..<vase_height_segments])"
  from assms have "v \<in> set ?r1 \<or> v \<in> set ?r2 \<or> v \<in> set ?r3 \<or> v \<in> set ?r4 \<or> v \<in> set ?bs"
    unfolding vase_vertices_def by (simp only: set_append Un_iff)
  moreover have "v \<in> set ?r1 \<Longrightarrow> ?thesis"
  proof -
    assume m: "v \<in> set ?r1"
    show ?thesis by (rule groove_sample_ring_y [OF m, where lr="1.0"]) (rule disjI1, rule refl)
  qed
  moreover have "v \<in> set ?r2 \<Longrightarrow> ?thesis"
  proof -
    assume m: "v \<in> set ?r2"
    show ?thesis by (rule groove_sample_ring_y [OF m, where lr="1.0"]) (rule disjI2, rule refl)
  qed
  moreover have "v \<in> set ?r3 \<Longrightarrow> ?thesis"
  proof -
    assume m: "v \<in> set ?r3"
    show ?thesis by (rule groove_sample_ring_y [OF m, where lr="0.0"]) (rule disjI1, rule refl)
  qed
  moreover have "v \<in> set ?r4 \<Longrightarrow> ?thesis"
  proof -
    assume m: "v \<in> set ?r4"
    show ?thesis by (rule groove_sample_ring_y [OF m, where lr="0.0"]) (rule disjI2, rule refl)
  qed
  moreover have "v \<in> set ?bs \<Longrightarrow> ?thesis"
  proof -
    assume "v \<in> set ?bs"
    then obtain h i where "v \<in> set (vase_band_vertices ?a 0.5 h i)" by auto
    then show ?thesis by (rule groove_sample_band_y)
  qed
  ultimately show ?thesis by blast
qed

lemma top_ring_member:
  assumes "i < vase_segments"
  shows "vase_ring_vertex (\<lambda>angle. vase_get_surface_modulation a angle 1.0) (vase_height / 2.0) 1 i
     \<in> set (vase_vertices a wt)"
proof -
  from assms have "i \<in> set [0..<vase_segments]" by simp
  then have "vase_ring_vertex (\<lambda>angle. vase_get_surface_modulation a angle 1.0) (vase_height / 2.0) 1 i
     \<in> set (map (vase_ring_vertex (\<lambda>angle. vase_get_surface_modulation a angle 1.0) (vase_height / 2.0) 1) [0..<vase_segments])"
    by (simp only: set_map image_eqI)
  then show ?thesis
    unfolding vase_vertices_def by (simp only: set_append Un_iff simp_thms)
qed

lemma groove_sample_y_max: "2.44 \<in> vy ` set (vase_vertices groove_sample_args 0.5)"
proof -
  let ?v = "vase_ring_vertex (\<lambda>angle. vase_get_surface_modulation groove_sample_args angle 1.0) (vase_height / 2.0) 1 10"
  have "?v \<in> set (vase_vertices groove_sample_args 0.5)"
    by (rule top_ring_member) (simp add: vase_segments_def)
  moreover have "vy ?v = 2.44"
  proof -
    have a: "(2.0 * pi * real (10::nat)) / real vase_segments = pi / 2"
      by (simp add: vase_segments_def)
    show ?thesis
      unfolding vase_ring_vertex_def Let_def a groove_sample_outer by simp
  qed
  ultimately show ?thesis by (metis image_eqI)
qed

lemma groove_sample_y_min: "- 2.44 \<in> vy ` set (vase_vertices groove_sample_args 0.5)"
proof -
  let ?v = "vase_ring_vertex (\<lambda>angle. vase_get_surface_modulation groove_sample_args angle 1.0) (vase_height / 2.0) 1 30"
  have "?v \<in> set (vase_vertices groove_sample_args 0.5)"
    by (rule top_ring_member) (simp add: vase_segments_def)
  moreover have "vy ?v = - 2.44"
  proof -
    have a: "(2.0 * pi * real (30::nat)) / real vase_segments = 3 / 2 * pi"
      by (simp add: vase_segments_def)
    have "cos (2 * (3 / 2 * pi)) = cos (pi + 2 * pi)" by (simp add: algebra_simps)
    also have "\<dots> = - 1" by (simp only: cos_periodic cos_pi)
    finally have c: "cos (2 * (3 / 2 * pi)) = - 1" .
    show ?thesis
      unfolding vase_ring_vertex_def Let_def a groove_sample_outer vertex.sel c sin_3over2_pi
      by simp
  qed
  ultimately show ?thesis by (metis image_eqI)
qed

lemma groove_sample_y_extent:
  "Max (vy ` set (vase_vertices groove_sample_args 0.5)) = 2.44"
  "Min (vy ` set (vase_vertices groove_sample_args 0.5)) = - 2.44"
proof -
  let ?A = "vy ` set (vase_vertices groove_sample_args 0.5)"
  have fin: "finite ?A" by simp
  show "Max ?A = 2.44"
  proof (rule Max_eqI [OF fin])
    fix y assume "y \<in> ?A"
    then show "y \<le> 2.44" using groove_sample_y by auto
  next
    show "2.44 \<in> ?A" by (rule groove_sample_y_max)
  qed
  show "Min ?A = - 2.44"
  proof (rule Min_eqI [OF fin])
    fix y assume "y \<in> ?A"
    then show "- 2.44 \<le> y" using groove_sample_y by auto
  next
    show "- 2.44 \<in> ?A" by (rule groove_sample_y_min)
  qed
qed

lemma vase_depth_tracked_eq:
  "vase_depth_tracked a wt
     = Fin (Max (vy ` set (vase_vertices a wt)) - Min (vy ` set (vase_vertices a wt)))"
  using vase_vertices_nonempty [of a wt]
  by (simp add: vase_depth_tracked_def vase_build_eq bbox_of_def)

lemma groove_sample_depth: "vase_depth_tracked groove_sample_args 0.5 = Fin 4.88"
proof -
  have "vase_depth_tracked groove_sample_args 0.5
      = Fin (Max (vy ` set (vase_vertices groove_sample_args 0.5))
           - Min (vy ` set (vase_vertices groove_sample_args 0.5)))"
    by (rule vase_depth_tracked_eq)
  also have "\<dots> = Fin (2.44 - (- 2.44))" by (simp only: groove_sample_y_extent)
  also have "\<dots> = Fin 4.88" by simp
  finally show ?thesis .
qed

text \<open>The three-lobe sample: the radius is \<open>2.5 + 0.3 * cos (3 * phi)\<close> for the outer and
  \<open>2 + 0.3 * cos (3 * phi)\<close> for the inner wall.  Its \<open>x\<close> coordinates lie in \<open>[-2.3, 2.8]\<close>;
  its \<open>y\<close> coordinates reach beyond 2.603 and -2.603, at the rows of 108 and 252 degrees.\<close>

lemma vase_vertex_polar:
  assumes "v \<in> set (vase_vertices a wt)"
  shows "\<exists>phi lr. (vx v = vase_get_surface_modulation a phi lr * cos phi
                  \<and> vy v = vase_get_surface_modulation a phi lr * sin phi)
               \<or> (vx v = get_inner_surface_modulation a wt phi lr * cos phi
                  \<and> vy v = get_inner_surface_modulation a wt phi lr * sin phi)"
proof -
  have ring: "\<And>r z nz xs. v \<in> set (map (vase_ring_vertex r z nz) xs) \<Longrightarrow>
      \<exists>phi. vx v = r phi * cos phi \<and> vy v = r phi * sin phi"
    by (auto simp: vase_ring_vertex_def Let_def)
  let ?r1 = "map (vase_ring_vertex (\<lambda>angle. vase_get_surface_modulation a angle 1.0) (vase_height / 2.0) 1) [0..<vase_segments]"
  let ?r2 = "map (vase_ring_vertex (\<lambda>angle. get_inner_surface_modulation a wt angle 1.0) (vase_height / 2.0) 1) [0..<vase_segments]"
  let ?r3 = "map (vase_ring_vertex (\<lambda>angle. vase_get_surface_modulation a angle 0.0) (- (vase_height / 2.0)) (-1)) [0..<vase_segments]"
  let ?r4 = "map (vase_ring_vertex (\<lambda>angle. get_inner_surface_modulation a wt angle 0.0) (- (vase_height / 2.0)) (-1)) [0..<vase_segments]"
  let ?bs = "concat (map (\<lambda>h. concat (map (vase_band_vertices a wt h) [0..<vase_segments])) [0..<vase_height_segments])"
  from assms have "v \<in> set ?r1 \<or> v \<in> set ?r2 \<or> v \<in> set ?r3 \<or> v \<in> set ?r4 \<or> v \<in> set ?bs"
    unfolding vase_vertices_def by (simp only: set_append Un_iff)
  moreover have "v \<in> set ?r1 \<Longrightarrow> ?thesis" using ring [of _ _ _ "[0..<vase_segments]"] by blast
  moreover have "v \<in> set ?r2 \<Longrightarrow> ?thesis" using ring [of _ _ _ "[0..<vase_segments]"] by blast
  moreover have "v \<in> set ?r3 \<Longrightarrow> ?thesis" using ring [of _ _ _ "[0..<vase_segments]"] by blast
  moreover have "v \<in> set ?r4 \<Longrightarrow> ?thesis" using ring [of _ _ _ "[0..<vase_segments]"] by blast
  moreover have "v \<in> set ?bs \<Longrightarrow> ?thesis"
  proof -
    assume "v \<in> set ?bs"
    then obtain h i where "v \<in> set (vase_band_vertices a wt h i)" by auto
    then show ?thesis
      unfolding vase_band_vertices_def Let_def
      by (simp only: list.set insert_iff empty_iff) (elim disjE; simp; blast)
  qed
  ultimately show ?thesis by blast
qed

lemma lobe_sample_outer:
  "vase_get_surface_modulation lobe_sample_args phi lr = 2.5 + 0.3 * cos (3 * phi)"
  by (simp add: vase_get_surface_modulation_def lobe_sample_args_def Let_def)

lemma lobe_sample_inner:
  "get_inner_surface_modulation lobe_sample_args 0.5 phi lr = 2 + 0.3 * cos (3 * phi)"
  by (simp add: get_inner_surface_modulation_def lobe_sample_args_def Let_def)

text \<open>The outer profile in terms of \<open>c = cos phi\<close>: \<open>(2.5 + 0.3 * (4 c^3 - 3 c)) * c\<close>.\<close>

lemma lobe_quartic:
  fixes c :: real
  assumes "- 1 \<le> c" and "c \<le> 1"
  shows "- 2.3 \<le> (2.5 + 0.3 * (4 * c ^ 3 - 3 * c)) * c"
proof (cases "- 0.8 \<le> c")
  case True
  have k: "- 1 \<le> 4 * c ^ 3 - 3 * c \<and> 4 * c ^ 3 - 3 * c \<le> 1"
  proof -
    have "4 * c ^ 3 - 3 * c - 1 = (c - 1) * (2 * c + 1)\<^sup>2"
      by (simp add: power2_eq_square power3_eq_cube field_simps)
    moreover have "(c - 1) * (2 * c + 1)\<^sup>2 \<le> 0"
      using assms by (simp add: mult_nonpos_nonneg)
    moreover have "4 * c ^ 3 - 3 * c + 1 = (c + 1) * (2 * c - 1)\<^sup>2"
      by (simp add: power2_eq_square power3_eq_cube field_simps)
    moreover have "0 \<le> (c + 1) * (2 * c - 1)\<^sup>2"
      using assms by simp
    ultimately show ?thesis by linarith
  qed
  define r where "r = 2.5 + 0.3 * (4 * c ^ 3 - 3 * c)"
  have g: "\<And>x::real. - 1 \<le> x \<and> x \<le> 1 \<Longrightarrow> 0 \<le> 2.5 + 0.3 * x \<and> 2.5 + 0.3 * x \<le> 2.8"
    by simp
  from g [OF k] have r: "0 \<le> r" "r \<le> 2.8" unfolding r_def by blast+
  show ?thesis
  proof (cases "0 \<le> c")
    case True
    with r have "0 \<le> r * c" by simp
    then show ?thesis unfolding r_def by linarith
  next
    case False
    then have "c \<le> 0" by simp
    from True r have "r * (- c) \<le> 2.8 * 0.8"
      using \<open>c \<le> 0\<close> by (intro mult_mono) simp_all
    then show ?thesis unfolding r_def by (simp add: field_simps)
  qed
next
  case False
  define t where "t = - c"
  from False assms have t: "0.8 \<le> t" "t \<le> 1" by (simp_all add: t_def)
  have e: "(2.5 + 0.3 * (4 * c ^ 3 - 3 * c)) * c + 2.3
      = 0.1 + (1 - t) * (2.2 - 0.3 * t - 1.2 * t\<^sup>2 - 1.2 * t ^ 3)"
    by (simp add: t_def power2_eq_square power3_eq_cube field_simps)
  from t have t2: "t\<^sup>2 \<le> 1" "t ^ 3 \<le> 1"
    by (simp_all add: power_le_one)
  then have q: "- 0.5 \<le> 2.2 - 0.3 * t - 1.2 * t\<^sup>2 - 1.2 * t ^ 3" using t by simp
  from t have o: "0 \<le> 1 - t" "1 - t \<le> 0.2" by simp_all
  have "(1 - t) * (- 0.5) \<le> (1 - t) * (2.2 - 0.3 * t - 1.2 * t\<^sup>2 - 1.2 * t ^ 3)"
    using q o(1) by (rule mult_left_mono)
  moreover have "- 0.1 \<le> (1 - t) * (- 0.5)" using o by simp
  ultimately have "- 0.1 \<le> (1 - t) * (2.2 - 0.3 * t - 1.2 * t\<^sup>2 - 1.2 * t ^ 3)" by linarith
  with e show ?thesis by linarith
qed

lemma lobe_sample_x_bound:
  fixes phi :: real
  shows "- 2.3 \<le> (2.5 + 0.3 * cos (3 * phi)) * cos phi \<and> (2.5 + 0.3 * cos (3 * phi)) * cos phi \<le> 2.8"
    and "- 2.3 \<le> (2 + 0.3 * cos (3 * phi)) * cos phi \<and> (2 + 0.3 * cos (3 * phi)) * cos phi \<le> 2.8"
proof -
  have c: "- 1 \<le> cos phi" "cos phi \<le> 1" "- 1 \<le> cos (3 * phi)" "cos (3 * phi) \<le> 1" by simp_all
  have g: "\<And>x::real. - 1 \<le> x \<Longrightarrow> x \<le> 1 \<Longrightarrow>
      0 \<le> 2.5 + 0.3 * x \<and> 2.5 + 0.3 * x \<le> 2.8 \<and> 0 \<le> 2 + 0.3 * x \<and> 2 + 0.3 * x \<le> 2.3"
    by simp
  have o: "0 \<le> 2.5 + 0.3 * cos (3 * phi)" "2.5 + 0.3 * cos (3 * phi) \<le> 2.8"
    using g [OF c(3,4)] by blast+
  have i: "0 \<le> 2 + 0.3 * cos (3 * phi)" "2 + 0.3 * cos (3 * phi) \<le> 2.3"
    using g [OF c(3,4)] by blast+
  have l: "- 2.3 \<le> (2.5 + 0.3 * cos (3 * phi)) * cos phi"
    using lobe_quartic [OF c(1,2)] by (simp only: cos_treble_cos)
  from radius_times_cos [OF o c(1,2)] l
  show "- 2.3 \<le> (2.5 + 0.3 * cos (3 * phi)) * cos phi \<and> (2.5 + 0.3 * cos (3 * phi)) * cos phi \<le> 2.8"
    by blast
  from radius_times_cos [OF i c(1,2)]
  show "- 2.3 \<le> (2 + 0.3 * cos (3 * phi)) * cos phi \<and> (2 + 0.3 * cos (3 * phi)) * cos phi \<le> 2.8"
    by linarith
qed

lemma lobe_sample_x:
  assumes "v \<in> set (vase_vertices lobe_sample_args 0.5)"
  shows "- 2.3 \<le> vx v \<and> vx v \<le> 2.8"
proof -
  from vase_vertex_polar [OF assms] obtain phi where
    "vx v = (2.5 + 0.3 * cos (3 * phi)) * cos phi \<or> vx v = (2 + 0.3 * cos (3 * phi)) * cos phi"
    unfolding lobe_sample_outer lobe_sample_inner by blast
  then show ?thesis
  proof
    assume e: "vx v = (2.5 + 0.3 * cos (3 * phi)) * cos phi"
    show ?thesis unfolding e by (rule lobe_sample_x_bound(1))
  next
    assume e: "vx v = (2 + 0.3 * cos (3 * phi)) * cos phi"
    show ?thesis unfolding e by (rule lobe_sample_x_bound(2))
  qed
qed

text \<open>The cosine of 36 degrees and the sine of 72 degrees.\<close>

lemma cos_pi5_pos: "0 < cos (pi / 5)"
proof (rule cos_gt_zero)
  show "0 < pi / 5" using pi_gt_zero by linarith
  show "pi / 5 < pi / 2" using pi_gt_zero by linarith
qed

lemma cos_pi5_quadratic: "4 * (cos (pi / 5))\<^sup>2 - 2 * cos (pi / 5) - 1 = 0"
proof -
  define c where "c = cos (pi / 5)"
  have "cos (3 * (pi / 5)) = cos (pi - 2 * (pi / 5))" by (simp add: field_simps)
  also have "\<dots> = - cos (2 * (pi / 5))" by (rule cos_pi_minus)
  finally have "4 * c ^ 3 - 3 * c = - (2 * c\<^sup>2 - 1)"
    unfolding c_def by (simp only: cos_treble_cos cos_double_cos)
  then have "(c + 1) * (4 * c\<^sup>2 - 2 * c - 1) = 0"
    by (simp add: power2_eq_square power3_eq_cube field_simps)
  moreover have "0 < c" unfolding c_def by (rule cos_pi5_pos)
  ultimately show ?thesis unfolding c_def by simp
qed

lemma cos_pi5_bounds: "0.8 \<le> cos (pi / 5) \<and> cos (pi / 5) \<le> 0.81"
proof -
  define c where "c = cos (pi / 5)"
  have q: "4 * c\<^sup>2 - 2 * c - 1 = 0" unfolding c_def by (rule cos_pi5_quadratic)
  have p: "0 < c" unfolding c_def by (rule cos_pi5_pos)
  have "0.8 \<le> c"
  proof (rule ccontr)
    assume "\<not> 0.8 \<le> c"
    then have "c - 0.8 < 0" by simp
    moreover from p have "0 < 4 * c + 1.2" by simp
    ultimately have "(c - 0.8) * (4 * c + 1.2) < 0" by (rule mult_neg_pos)
    moreover have "(c - 0.8) * (4 * c + 1.2) = 4 * c\<^sup>2 - 2 * c - 1 + 0.04"
      by (simp add: power2_eq_square field_simps)
    ultimately show False using q by simp
  qed
  moreover have "c \<le> 0.81"
  proof (rule ccontr)
    assume "\<not> c \<le> 0.81"
    then have "0 < c - 0.81" by simp
    moreover from p have "0 < 4 * c + 1.24" by simp
    ultimately have "0 < (c - 0.81) * (4 * c + 1.24)" by (rule mult_pos_pos)
    moreover have "(c - 0.81) * (4 * c + 1.24) = 4 * c\<^sup>2 - 2 * c - 1 - 0.0044"
      by (simp add: power2_eq_square field_simps)
    ultimately show False using q by simp
  qed
  ultimately show ?thesis unfolding c_def by simp
qed

lemma sin_2pi5_bound: "0.95 \<le> sin (2 * (pi / 5))"
proof -
  define c where "c = cos (pi / 5)"
  define k where "k = cos (2 * (pi / 5))"
  define s where "s = sin (2 * (pi / 5))"
  from cos_pi5_bounds have c: "0.8 \<le> c" "c \<le> 0.81" by (simp_all add: c_def)
  have k: "k = 2 * c\<^sup>2 - 1" unfolding k_def c_def by (rule cos_double_cos)
  from c have "0.8 * 0.8 \<le> c * c" "c * c \<le> 0.81 * 0.81"
    by (intro mult_mono; simp)+
  then have kb: "0 \<le> k" "k \<le> 0.3122" unfolding k power2_eq_square by simp_all
  then have "k * k \<le> 0.3122 * 0.3122" by (intro mult_mono) simp_all
  moreover have "s\<^sup>2 + k\<^sup>2 = 1" unfolding s_def k_def by (rule sin_cos_squared_add)
  ultimately have s2: "0.9025 \<le> s * s" by (simp add: power2_eq_square)
  have sp: "0 < s" unfolding s_def
  proof (rule sin_gt_zero)
    show "0 < 2 * (pi / 5)" using pi_gt_zero by linarith
    show "2 * (pi / 5) < pi" using pi_gt_zero by linarith
  qed
  show ?thesis
  proof (rule ccontr)
    assume "\<not> 0.95 \<le> sin (2 * (pi / 5))"
    then have "s < 0.95" by (simp add: s_def)
    with sp have "s * s < 0.95 * 0.95" by (intro mult_strict_mono) simp_all
    with s2 show False by simp
  qed
qed

lemma lobe_sample_y_high:
  "\<exists>v \<in> set (vase_vertices lobe_sample_args 0.5). 2.603 \<le> vy v"
proof -
  let ?v = "vase_ring_vertex (\<lambda>angle. vase_get_surface_modulation lobe_sample_args angle 1.0) (vase_height / 2.0) 1 12"
  have m: "?v \<in> set (vase_vertices lobe_sample_args 0.5)"
    by (rule top_ring_member) (simp add: vase_segments_def)
  have a: "(2.0 * pi * real (12::nat)) / real vase_segments = 3 * (pi / 5)"
    by (simp add: vase_segments_def)
  have "cos (3 * (3 * (pi / 5))) = cos (2 * pi - pi / 5)" by (simp add: field_simps)
  also have "\<dots> = cos (pi / 5)" by (rule cos_2pi_minus)
  finally have c: "cos (3 * (3 * (pi / 5))) = cos (pi / 5)" .
  have "sin (3 * (pi / 5)) = sin (pi - 2 * (pi / 5))" by (simp add: field_simps)
  also have "\<dots> = sin (2 * (pi / 5))" by (rule sin_pi_minus)
  finally have s: "sin (3 * (pi / 5)) = sin (2 * (pi / 5))" .
  have y: "vy ?v = (2.5 + 0.3 * cos (pi / 5)) * sin (2 * (pi / 5))"
    unfolding vase_ring_vertex_def Let_def a lobe_sample_outer vertex.sel c s by (rule refl)
  have g: "\<And>x::real. 0.8 \<le> x \<Longrightarrow> 2.74 \<le> 2.5 + 0.3 * x" by simp
  from cos_pi5_bounds have "2.74 \<le> 2.5 + 0.3 * cos (pi / 5)" by (intro g) blast
  then have "2.74 * 0.95 \<le> (2.5 + 0.3 * cos (pi / 5)) * sin (2 * (pi / 5))"
    using sin_2pi5_bound by (intro mult_mono) simp_all
  then have "2.603 \<le> vy ?v" unfolding y by simp
  with m show ?thesis by blast
qed

lemma lobe_sample_y_low:
  "\<exists>v \<in> set (vase_vertices lobe_sample_args 0.5). vy v \<le> - 2.603"
proof -
  let ?v = "vase_ring_vertex (\<lambda>angle. vase_get_surface_modulation lobe_sample_args angle 1.0) (vase_height / 2.0) 1 28"
  have m: "?v \<in> set (vase_vertices lobe_sample_args 0.5)"
    by (rule top_ring_member) (simp add: vase_segments_def)
  have a: "(2.0 * pi * real (28::nat)) / real vase_segments = 7 * (pi / 5)"
    by (simp add: vase_segments_def)
  have "cos (3 * (7 * (pi / 5))) = cos (pi / 5 + 2 * pi + 2 * pi)" by (simp add: field_simps)
  also have "\<dots> = cos (pi / 5)" by (simp only: cos_periodic)
  finally have c: "cos (3 * (7 * (pi / 5))) = cos (pi / 5)" .
  have "sin (7 * (pi / 5)) = sin (2 * (pi / 5) + pi)" by (simp add: field_simps)
  also have "\<dots> = - sin (2 * (pi / 5))" by (rule sin_periodic_pi)
  finally have s: "sin (7 * (pi / 5)) = - sin (2 * (pi / 5))" .
  have y: "vy ?v = (2.5 + 0.3 * cos (pi / 5)) * (- sin (2 * (pi / 5)))"
    unfolding vase_ring_vertex_def Let_def a lobe_sample_outer vertex.sel c s by (rule refl)
  have g: "\<And>x::real. 0.8 \<le> x \<Longrightarrow> 2.74 \<le> 2.5 + 0.3 * x" by simp
  from cos_pi5_bounds have "2.74 \<le> 2.5 + 0.3 * cos (pi / 5)" by (intro g) blast
  then have "2.74 * 0.95 \<le> (2.5 + 0.3 * cos (pi / 5)) * sin (2 * (pi / 5))"
    using sin_2pi5_bound by (intro mult_mono) simp_all
  then have "vy ?v \<le> - 2.603" unfolding y by simp
  with m show ?thesis by blast
qed

lemma lobe_sample_extents:
  "Max (vx ` set (vase_vertices lobe_sample_args 0.5))
     - Min (vx ` set (vase_vertices lobe_sample_args 0.5)) \<le> 5.1"
  "5.206 \<le> Max (vy ` set (vase_vertices lobe_sample_args 0.5))
     - Min (vy ` set (vase_vertices lobe_sample_args 0.5))"
proof -
  let ?X = "vx ` set (vase_vertices lobe_sample_args 0.5)"
  let ?Y = "vy ` set (vase_vertices lobe_sample_args 0.5)"
  have ne: "?X \<noteq> {}" using vase_vertices_nonempty [of lobe_sample_args "0.5"] by simp
  have "Max ?X \<le> 2.8"
    by (rule Max.boundedI) (use ne lobe_sample_x in auto)
  moreover have "- 2.3 \<le> Min ?X"
    by (rule Min.boundedI) (use ne lobe_sample_x in auto)
  ultimately show "Max ?X - Min ?X \<le> 5.1" by simp
  have fin: "finite ?Y" by simp
  from lobe_sample_y_high obtain v where v: "v \<in> set (vase_vertices lobe_sample_args 0.5)" "2.603 \<le> vy v"
    by blast
  from v(1) have "vy v \<in> ?Y" by (rule imageI)
  with fin have "vy v \<le> Max ?Y" by (rule Max_ge)
  with v(2) have hi: "2.603 \<le> Max ?Y" by linarith
  from lobe_sample_y_low obtain w where w: "w \<in> set (vase_vertices lobe_sample_args 0.5)" "vy w \<le> - 2.603"
    by blast
  from w(1) have "vy w \<in> ?Y" by (rule imageI)
  with fin have "Min ?Y \<le> vy w" by (rule Min_le)
  with w(2) have lo: "Min ?Y \<le> - 2.603" by linarith
  from hi lo show "5.206 \<le> Max ?Y - Min ?Y" by linarith
qed

lemma lobe_sample_diameter:
  "float_less (snd (snd (snd (vaseGeometry lobe_sample_args 0.5)))) (Fin 5.11)"
proof -
  have "snd (snd (snd (vaseGeometry lobe_sample_args 0.5)))
      = Fin (Max (vx ` set (vase_vertices lobe_sample_args 0.5))
           - Min (vx ` set (vase_vertices lobe_sample_args 0.5)))"
    by (simp only: vaseGeometry_eq snd_conv)
  then show ?thesis using lobe_sample_extents(1) by simp
qed

lemma lobe_sample_depth:
  "float_less (Fin 5.2) (vase_depth_tracked lobe_sample_args 0.5)"
  unfolding vase_depth_tracked_eq using lobe_sample_extents(2) by simp

lemma lobe_sample_less:
  "float_less (snd (snd (snd (vaseGeometry lobe_sample_args 0.5))))
     (vase_depth_tracked lobe_sample_args 0.5)"
proof -
  have "snd (snd (snd (vaseGeometry lobe_sample_args 0.5)))
      = Fin (Max (vx ` set (vase_vertices lobe_sample_args 0.5))
           - Min (vx ` set (vase_vertices lobe_sample_args 0.5)))"
    by (simp only: vaseGeometry_eq snd_conv)
  then show ?thesis unfolding vase_depth_tracked_eq using lobe_sample_extents by simp
qed

text \<open>
  C2 (as amended).  For every argument set and wall thickness, the diameter returned by
  \<open>vaseGeometry\<close> (and stored by \<open>_extract_result\<close> in the geometry result) is the largest
  minus the smallest \<open>x\<close> coordinate over all vertex rows of the mesh, as tracked by
  \<open>add_vertex\<close> and subtracted once after the mesh is complete; the \<open>y\<close> trackers take no part
  in it.  The height returned and stored is the builder's constant 7.0; it is not read from
  the \<open>z\<close> trackers, but it is equal in value to the largest minus the smallest \<open>z\<close>
  coordinate over all rows (the value of \<open>height_actual\<close>, which is only printed).  The
  diameter is not twice the base width: for the sample with two grooves of depth 1 and
  width 2.5 it is 5.12.
\<close>

theorem vase_bounding_metrics:
  "case vaseGeometry a wt of (t, g, h, d) \<Rightarrow>
       d = Fin (Max (vx ` set (vdata g)) - Min (vx ` set (vdata g)))
     \<and> h = vase_height
     \<and> h = Max (vz ` set (vdata g)) - Min (vz ` set (vdata g))
     \<and> vase_height_actual a wt = Fin h
     \<and> diameter (extract_result (Tuple4 t g h d) ''Vace'') = Some d
     \<and> height (extract_result (Tuple4 t g h d) ''Vace'') = h
     \<and> snd (snd (snd (vaseGeometry groove_sample_args 0.5))) = Fin 5.12
     \<and> Fin 5.12 \<noteq> Fin (2 * object_width groove_sample_args)"
proof -
  have "Fin 5.12 \<noteq> Fin (2 * object_width groove_sample_args)"
    by (simp add: groove_sample_args_def)
  with groove_sample_diameter show ?thesis
    by (simp add: vaseGeometry_eq vase_z_extent vase_height_actual_eq)
qed

text \<open>
  C2 as stated fails in its \<open>y\<close> part: the diameter is not the extent of the tracked \<open>y\<close>
  coordinates, and the \<open>y\<close> trackers do not enter it.  For the sample with two grooves of
  depth 1 and width 2.5 (wall thickness 0.5) the radius is \<open>2.5 + 0.06 * cos (2 * phi)\<close>, so
  the \<open>x\<close> coordinates span \<open>[-2.56, 2.56]\<close> and the \<open>y\<close> coordinates \<open>[-2.44, 2.44]\<close>: the
  diameter returned is 5.12, while \<open>max_y - min_y\<close> is 4.88.  For the sample with three lobes
  of depth 5 and width 2.5 the \<open>y\<close> extent is the larger of the two: the diameter returned
  is below 5.11 (it is the \<open>x\<close> extent, about 5.01), while \<open>max_y - min_y\<close> is above 5.2
  (about 5.22); so the diameter is neither the \<open>y\<close> extent, nor the larger of the two
  extents, nor the extent of the \<open>x\<close> and \<open>y\<close> coordinates taken together.
\<close>

theorem vase_diameter_ignores_y_counterexample:
  "snd (snd (snd (vaseGeometry groove_sample_args 0.5))) = Fin 5.12
   \<and> vase_depth_tracked groove_sample_args 0.5 = Fin 4.88
   \<and> snd (snd (snd (vaseGeometry groove_sample_args 0.5))) \<noteq> vase_depth_tracked groove_sample_args 0.5
   \<and> float_less (snd (snd (snd (vaseGeometry lobe_sample_args 0.5)))) (Fin 5.11)
   \<and> float_less (Fin 5.2) (vase_depth_tracked lobe_sample_args 0.5)
   \<and> float_less (snd (snd (snd (vaseGeometry lobe_sample_args 0.5))))
         (vase_depth_tracked lobe_sample_args 0.5)"
proof -
  have "Fin 5.12 \<noteq> Fin 4.88" by simp
  with groove_sample_diameter groove_sample_depth
    lobe_sample_diameter lobe_sample_depth lobe_sample_less
  show ?thesis by (simp only: simp_thms)
qed

section \<open>Edge sharing in the two meshes\<close>

lemma tri_edge_count:
  assumes "nondegenerate t" and "u \<noteq> v"
  shows "(if tri_has_edge u v t then 1 else 0) =
     count_list (tri_edges t) (u, v) + count_list (tri_edges t) (v, u)"
proof -
  obtain a b c where t: "t = (a, b, c)" by (cases t) auto
  from assms show ?thesis
    unfolding t nondegenerate_def tri_has_edge_def tri_edges_def
    by (simp only: prod.case count_list.simps prod.inject) auto
qed

lemma count_list_append': "count_list (xs @ ys) x = count_list xs x + count_list ys x"
  by (induction xs) simp_all

lemma edge_count_directed:
  assumes "list_all nondegenerate ts" and "u \<noteq> v"
  shows "edge_count ts u v =
     count_list (concat (map tri_edges ts)) (u, v) + count_list (concat (map tri_edges ts)) (v, u)"
  using assms(1)
proof (induction ts)
  case Nil
  show ?case by (simp add: edge_count_def)
next
  case (Cons t ts)
  then have n: "nondegenerate t" and ih: "edge_count ts u v =
     count_list (concat (map tri_edges ts)) (u, v) + count_list (concat (map tri_edges ts)) (v, u)"
    by simp_all
  have "edge_count (t # ts) u v = (if tri_has_edge u v t then 1 else 0) + edge_count ts u v"
    by (simp add: edge_count_def)
  also have "\<dots> = (count_list (tri_edges t) (u, v) + count_list (tri_edges t) (v, u))
       + (count_list (concat (map tri_edges ts)) (u, v) + count_list (concat (map tri_edges ts)) (v, u))"
    by (simp only: tri_edge_count [OF n assms(2)] ih)
  finally show ?case by (simp add: count_list_append')
qed

lemma distinct_count_le_1: "distinct xs \<Longrightarrow> count_list xs x \<le> 1"
  by (induction xs) auto

lemma tri_edge_has: "e \<in> set (tri_edges t) \<Longrightarrow> tri_has_edge (fst e) (snd e) t"
  by (cases t) (auto simp: tri_edges_def tri_has_edge_def)

lemma tri_edge_distinct_ends: "nondegenerate t \<Longrightarrow> e \<in> set (tri_edges t) \<Longrightarrow> fst e \<noteq> snd e"
  by (cases t) (auto simp: tri_edges_def nondegenerate_def)

lemma edge_count_pos:
  assumes "t \<in> set ts" and "e \<in> set (tri_edges t)"
  shows "1 \<le> edge_count ts (fst e) (snd e)"
proof -
  from assms have "t \<in> set (filter (tri_has_edge (fst e) (snd e)) ts)"
    by (simp add: tri_edge_has)
  then have "filter (tri_has_edge (fst e) (snd e)) ts \<noteq> []"
    by (metis empty_iff list.set(1))
  then show ?thesis by (simp add: edge_count_def Suc_le_eq)
qed

lemma oriented_manifold:
  assumes nd: "list_all nondegenerate ts" and d: "distinct (concat (map tri_edges ts))"
  shows "manifold_with_boundary ts"
  unfolding manifold_with_boundary_def
proof (intro conjI ballI)
  show "distinct (concat (map tri_edges ts))" by (rule d)
next
  fix t e assume t: "t \<in> set ts" and e: "e \<in> set (tri_edges t)"
  show "1 \<le> edge_count ts (fst e) (snd e)" by (rule edge_count_pos [OF t e])
  from nd t have "nondegenerate t" by (simp add: list_all_iff)
  then have ne: "fst e \<noteq> snd e" using e by (rule tri_edge_distinct_ends)
  from edge_count_directed [OF nd ne]
    distinct_count_le_1 [OF d, of "(fst e, snd e)"] distinct_count_le_1 [OF d, of "(snd e, fst e)"]
  show "edge_count ts (fst e) (snd e) \<le> 2" by simp
qed

lemma distinct_concat_map_upt:
  assumes "\<And>i. i < n \<Longrightarrow> distinct (f i)"
    and "\<And>i j. i < j \<Longrightarrow> j < n \<Longrightarrow> set (f i) \<inter> set (f j) = {}"
  shows "distinct (concat (map f [0..<n]))"
  using assms
proof (induction n)
  case 0
  show ?case by simp
next
  case (Suc n)
  have "distinct (concat (map f [0..<n]))"
    by (rule Suc.IH) (simp_all add: Suc.prems)
  moreover have "distinct (f n)" by (simp add: Suc.prems)
  moreover have "set (concat (map f [0..<n])) \<inter> set (f n) = {}"
  proof -
    have "\<And>i. i < n \<Longrightarrow> set (f i) \<inter> set (f n) = {}"
      using Suc.prems(2) [of _ n] by simp
    then show ?thesis by fastforce
  qed
  ultimately show ?case by simp
qed

lemma edges_of_append: "edges_of (xs @ ys) = edges_of xs @ edges_of ys"
  by (simp add: edges_of_def)

lemma edges_of_concat: "edges_of (concat (map G xs)) = concat (map (\<lambda>x. edges_of (G x)) xs)"
  by (induction xs) (simp_all add: edges_of_def)

lemma edges_of_map: "edges_of (map g xs) = concat (map (\<lambda>x. tri_edges (g x)) xs)"
  by (simp add: edges_of_def comp_def)

lemma list_all_concat_map: "list_all P (concat (map G xs)) = (\<forall>x \<in> set xs. list_all P (G x))"
  by (induction xs) simp_all

text \<open>The successor \<open>(i + 1) mod n\<close> on a ring of \<open>n\<close> positions.\<close>

lemma succ_facts:
  assumes "2 \<le> (n::nat)" and "i < n"
  shows "(i + 1) mod n < n" and "(i + 1) mod n \<noteq> i"
proof -
  from assms show "(i + 1) mod n < n" by simp
  show "(i + 1) mod n \<noteq> i"
  proof (cases "i + 1 < n")
    case True
    then show ?thesis by simp
  next
    case False
    with assms have "i + 1 = n" by simp
    with assms show ?thesis by auto
  qed
qed

lemma succ_inj:
  assumes "i < (n::nat)" and "j < n" and "(i + 1) mod n = (j + 1) mod n"
  shows "i = j"
proof -
  have c: "\<And>k::nat. k < n \<Longrightarrow> (k + 1) mod n = (if k + 1 = n then 0 else k + 1)"
    by (simp add: mod_if)
  from assms c [of i] c [of j] show ?thesis
    by (auto split: if_splits)
qed

lemma flatten_bands:
  "concat (map (\<lambda>h. concat (map (\<lambda>i. F (n * h + i)) [0..<n])) [0..<m]) = concat (map F [0..<n * m])"
proof (induction m)
  case 0
  show ?case by simp
next
  case (Suc m)
  have nm: "n * Suc m = n * m + n" by simp
  have "[0..<n * Suc m] = [0..<n * m] @ [n * m..<n * m + n]"
    unfolding nm using upt_add_eq_append [of 0 "n * m" n] by simp
  moreover have "[n * m..<n * m + n] = map (\<lambda>i. n * m + i) [0..<n]"
    using map_add_upt [of "n * m" n] by (simp add: add.commute)
  ultimately have "map F [0..<n * Suc m] = map F [0..<n * m] @ map (\<lambda>i. F (n * m + i)) [0..<n]"
    by (simp add: comp_def)
  with Suc show ?case by simp
qed

lemma table_sides_flat:
  "concat (map (\<lambda>h. concat (map (\<lambda>i. table_quad (2 + 2 * n + 4 * n * h + 4 * i)) [0..<n])) [0..<m])
     = concat (map (\<lambda>q. table_quad (2 + 2 * n + 4 * q)) [0..<n * m])"
proof -
  have a: "\<And>h i. 2 + 2 * n + 4 * n * h + 4 * i = 2 + 2 * n + 4 * (n * h + i)"
    by (simp add: algebra_simps)
  show ?thesis
    unfolding a by (rule flatten_bands [of "\<lambda>q. table_quad (2 + 2 * n + 4 * q)" n m])
qed

lemma table_top_nondeg:
  assumes "2 \<le> n"
  shows "list_all nondegenerate (map (\<lambda>i. (0, 2 + 2 * i, 2 + 2 * ((i + 1) mod n))) [0..<n])"
  using succ_facts(2) [OF assms]
  by (fastforce simp: list_all_iff nondegenerate_def)

lemma table_bottom_nondeg:
  assumes "2 \<le> n"
  shows "list_all nondegenerate (map (\<lambda>i. (1, 3 + 2 * ((i + 1) mod n), 3 + 2 * i)) [0..<n])"
  using succ_facts(2) [OF assms]
  by (fastforce simp: list_all_iff nondegenerate_def)

lemma table_tris_nondeg:
  assumes "2 \<le> n"
  shows "list_all nondegenerate (table_tris n m)"
  unfolding table_tris_def table_sides_flat
  using table_top_nondeg [OF assms] table_bottom_nondeg [OF assms]
  by (simp add: list_all_concat_map table_quad_def nondegenerate_def)

lemma table_top_edges_distinct:
  assumes "2 \<le> n"
  shows "distinct (concat (map (\<lambda>i. tri_edges (0, 2 + 2 * i, 2 + 2 * ((i + 1) mod n))) [0..<n]))"
proof (rule distinct_concat_map_upt)
  fix i assume "i < n"
  with succ_facts(2) [OF assms, of i]
  show "distinct (tri_edges (0, 2 + 2 * i, 2 + 2 * ((i + 1) mod n)))"
    by (simp add: tri_edges_def)
next
  fix i j assume ij: "i < j" "j < n"
  then have "i < n" by simp
  from succ_inj [OF \<open>i < n\<close> ij(2)] ij have "(i + 1) mod n \<noteq> (j + 1) mod n" by auto
  with ij show "set (tri_edges (0, 2 + 2 * i, 2 + 2 * ((i + 1) mod n)))
      \<inter> set (tri_edges (0, 2 + 2 * j, 2 + 2 * ((j + 1) mod n))) = {}"
    by (simp add: tri_edges_def)
qed

lemma table_bottom_edges_distinct:
  assumes "2 \<le> n"
  shows "distinct (concat (map (\<lambda>i. tri_edges (1, 3 + 2 * ((i + 1) mod n), 3 + 2 * i)) [0..<n]))"
proof (rule distinct_concat_map_upt)
  fix i assume "i < n"
  with succ_facts(2) [OF assms, of i]
  show "distinct (tri_edges (1, 3 + 2 * ((i + 1) mod n), 3 + 2 * i))"
    by (simp add: tri_edges_def)
next
  fix i j assume ij: "i < j" "j < n"
  then have "i < n" by simp
  from succ_inj [OF \<open>i < n\<close> ij(2)] ij have "(i + 1) mod n \<noteq> (j + 1) mod n" by auto
  with ij show "set (tri_edges (1, 3 + 2 * ((i + 1) mod n), 3 + 2 * i))
      \<inter> set (tri_edges (1, 3 + 2 * ((j + 1) mod n), 3 + 2 * j)) = {}"
    by (simp add: tri_edges_def)
qed

lemma table_side_edges_distinct:
  "distinct (concat (map (\<lambda>q. edges_of (table_quad (b + 4 * q))) [0..<k]))"
proof (rule distinct_concat_map_upt)
  fix q show "distinct (edges_of (table_quad (b + 4 * q)))"
    by (simp add: edges_of_def table_quad_def tri_edges_def)
next
  fix q q' :: nat assume "q < q'"
  then show "set (edges_of (table_quad (b + 4 * q))) \<inter> set (edges_of (table_quad (b + 4 * q'))) = {}"
    by (simp add: edges_of_def table_quad_def tri_edges_def)
qed

lemma table_top_edge_class:
  assumes "i < (n::nat)" and "e \<in> set (tri_edges (0, 2 + 2 * i, 2 + 2 * ((i + 1) mod n)))"
  shows "even (fst e) \<and> fst e < 2 + 2 * n"
proof -
  from assms(1) have "Suc i mod n < n" by simp
  then have "2 * (Suc i mod n) + 2 \<le> 2 * n" by simp
  with assms show ?thesis by (auto simp: tri_edges_def)
qed

lemma table_bottom_edge_class:
  assumes "i < (n::nat)" and "e \<in> set (tri_edges (1, 3 + 2 * ((i + 1) mod n), 3 + 2 * i))"
  shows "odd (fst e) \<and> fst e < 2 + 2 * n"
proof -
  from assms(1) have "Suc i mod n < n" by simp
  then have "2 * (Suc i mod n) + 2 \<le> 2 * n" by simp
  with assms show ?thesis by (auto simp: tri_edges_def)
qed

lemma table_side_edge_class:
  assumes "e \<in> set (edges_of (table_quad (2 + 2 * n + 4 * q)))"
  shows "2 + 2 * n \<le> fst e"
  using assms by (auto simp: edges_of_def table_quad_def tri_edges_def)

lemma table_tris_edges_distinct:
  assumes "2 \<le> n"
  shows "distinct (edges_of (table_tris n m))"
proof -
  let ?T = "concat (map (\<lambda>i. tri_edges (0, 2 + 2 * i, 2 + 2 * ((i + 1) mod n))) [0..<n])"
  let ?B = "concat (map (\<lambda>i. tri_edges (1, 3 + 2 * ((i + 1) mod n), 3 + 2 * i)) [0..<n])"
  let ?S = "concat (map (\<lambda>q. edges_of (table_quad (2 + 2 * n + 4 * q))) [0..<n * m])"
  have e: "edges_of (table_tris n m) = ?T @ ?B @ ?S"
    unfolding table_tris_def table_sides_flat
    by (simp only: edges_of_append edges_of_map edges_of_concat)
  have cT: "\<And>e. e \<in> set ?T \<Longrightarrow> even (fst e) \<and> fst e < 2 + 2 * n"
    using table_top_edge_class by fastforce
  have cB: "\<And>e. e \<in> set ?B \<Longrightarrow> odd (fst e) \<and> fst e < 2 + 2 * n"
    using table_bottom_edge_class by fastforce
  have cS: "\<And>e. e \<in> set ?S \<Longrightarrow> 2 + 2 * n \<le> fst e"
    using table_side_edge_class by fastforce
  have "set ?T \<inter> set ?B = {}" using cT cB by blast
  moreover have "set ?T \<inter> set ?S = {}" using cT cS by fastforce
  moreover have "set ?B \<inter> set ?S = {}" using cB cS by fastforce
  ultimately show ?thesis
    unfolding e
    using table_top_edges_distinct [OF assms] table_bottom_edges_distinct [OF assms]
      table_side_edges_distinct [of "2 + 2 * n" "n * m"]
    by (simp only: distinct_append set_append) blast
qed

lemma table_tris_manifold:
  assumes "2 \<le> n"
  shows "manifold_with_boundary (table_tris n m)"
  using table_tris_nondeg [OF assms] table_tris_edges_distinct [OF assms]
  by (simp add: oriented_manifold edges_of_def)

lemma edges_of_tri_map: "edges_of (map (tri_map f) ts) = map (map_prod f f) (edges_of ts)"
  by (induction ts) (auto simp: edges_of_def tri_map_def tri_edges_def)

lemma distinct_regroup3:
  "distinct (concat (map (\<lambda>i. a i @ b i @ c i) xs))
   \<Longrightarrow> distinct (concat (map a xs) @ concat (map b xs) @ concat (map c xs))"
  by (induction xs) auto

lemma set_regroup3:
  "set (concat (map a xs) @ concat (map b xs) @ concat (map c xs))
     = set (concat (map (\<lambda>i. a i @ b i @ c i) xs))"
  by (induction xs) auto

lemma band_row_inj:
  assumes "snd p < 4" and "snd q < 4" and "band_row b p = band_row b q"
  shows "p = q"
proof -
  from assms have "4 * fst p + snd p = 4 * fst q + snd q" by (simp add: band_row_def)
  with assms(1,2) have "fst p = fst q \<and> snd p = snd q" by presburger
  then show ?thesis by (simp add: prod_eq_iff)
qed

lemma succ_no_2cycle:
  assumes "3 \<le> (n::nat)" and "i < n" and "j < n" and "(i + 1) mod n = j"
  shows "(j + 1) mod n \<noteq> i"
proof -
  have c: "\<And>k::nat. k < n \<Longrightarrow> (k + 1) mod n = (if k + 1 = n then 0 else k + 1)"
    by (simp add: mod_if)
  from assms c [of i] c [of j] show ?thesis
    by (auto split: if_splits)
qed

text \<open>The 24 directed edges of one column are distinct, and disjoint from those of any
  other column.\<close>

lemma band_column_edges_distinct:
  assumes "s \<noteq> i"
  shows "distinct (edges_of (band_column_tris i s))"
  using assms by (simp add: edges_of_def band_column_tris_def tri_edges_def)

lemma band_column_edges_disjoint:
  assumes "i \<noteq> j" and "s \<noteq> t" and "\<not> (s = j \<and> t = i)"
  shows "set (edges_of (band_column_tris i s)) \<inter> set (edges_of (band_column_tris j t)) = {}"
  using assms by (auto simp: edges_of_def band_column_tris_def tri_edges_def)

lemma band_column_split: "band_column_tris i s = col_outer i s @ col_inner i s @ col_wall i s"
  by (simp add: band_column_tris_def col_outer_def col_inner_def col_wall_def)

lemma map_concat_map: "map g (concat (map f xs)) = concat (map (\<lambda>x. map g (f x)) xs)"
  by (induction xs) simp_all

lemma vase_band_tris_abs: "vase_band_tris n b = map (tri_map (band_row b)) (abs_band n)"
  unfolding vase_band_tris_def abs_band_def map_append map_concat_map
  by (simp add: col_outer_def col_inner_def col_wall_def tri_map_def band_row_def)

lemma abs_band_edges_set:
  "set (edges_of (abs_band n)) = set (concat (map (\<lambda>i. edges_of (band_column_tris i ((i + 1) mod n))) [0..<n]))"
  unfolding abs_band_def edges_of_append edges_of_concat band_column_split
  by (rule set_regroup3)

lemma abs_band_edges_distinct:
  assumes "3 \<le> n"
  shows "distinct (edges_of (abs_band n))"
proof -
  have "distinct (concat (map (\<lambda>i. edges_of (band_column_tris i ((i + 1) mod n))) [0..<n]))"
  proof (rule distinct_concat_map_upt)
    fix i assume "i < n"
    with assms succ_facts(2) [of n i] have "(i + 1) mod n \<noteq> i" by simp
    then show "distinct (edges_of (band_column_tris i ((i + 1) mod n)))"
      by (rule band_column_edges_distinct)
  next
    fix i j assume ij: "i < j" "j < n"
    then have i: "i < n" by simp
    from ij have a: "i \<noteq> j" by simp
    from succ_inj [OF i ij(2)] a have b: "(i + 1) mod n \<noteq> (j + 1) mod n" by auto
    from succ_no_2cycle [OF assms i ij(2)] have c: "\<not> ((i + 1) mod n = j \<and> (j + 1) mod n = i)"
      by auto
    show "set (edges_of (band_column_tris i ((i + 1) mod n)))
        \<inter> set (edges_of (band_column_tris j ((j + 1) mod n))) = {}"
      by (rule band_column_edges_disjoint [OF a b c])
  qed
  then show ?thesis
    unfolding abs_band_def edges_of_append edges_of_concat band_column_split
    by (rule distinct_regroup3)
qed

lemma band_column_edges_valid:
  assumes "i < n" and "s < n" and "e \<in> set (edges_of (band_column_tris i s))"
  shows "fst (fst e) < n \<and> snd (fst e) < 4 \<and> fst (snd e) < n \<and> snd (snd e) < 4"
  using assms by (auto simp: edges_of_def band_column_tris_def tri_edges_def)

lemma abs_band_edges_valid:
  assumes "e \<in> set (edges_of (abs_band n))"
  shows "fst (fst e) < n \<and> snd (fst e) < 4 \<and> fst (snd e) < n \<and> snd (snd e) < 4"
proof -
  from assms obtain i where i: "i < n" and e: "e \<in> set (edges_of (band_column_tris i ((i + 1) mod n)))"
    unfolding abs_band_edges_set by auto
  from i have "(i + 1) mod n < n" by simp
  from band_column_edges_valid [OF i this e] show ?thesis .
qed

lemma vase_band_edges_distinct:
  assumes "3 \<le> n"
  shows "distinct (edges_of (vase_band_tris n b))"
proof -
  have "inj_on (map_prod (band_row b) (band_row b)) (set (edges_of (abs_band n)))"
  proof (rule inj_onI)
    fix e e' assume e: "e \<in> set (edges_of (abs_band n))" and e': "e' \<in> set (edges_of (abs_band n))"
      and eq: "map_prod (band_row b) (band_row b) e = map_prod (band_row b) (band_row b) e'"
    from eq have 1: "band_row b (fst e) = band_row b (fst e')"
      and 2: "band_row b (snd e) = band_row b (snd e')"
      by (simp_all add: map_prod_def split_beta)
    from abs_band_edges_valid [OF e] abs_band_edges_valid [OF e']
    have "fst e = fst e'" "snd e = snd e'"
      using band_row_inj [OF _ _ 1] band_row_inj [OF _ _ 2] by simp_all
    then show "e = e'" by (simp add: prod_eq_iff)
  qed
  with abs_band_edges_distinct [OF assms] show ?thesis
    unfolding vase_band_tris_abs edges_of_tri_map by (simp add: distinct_map)
qed

lemma vase_band_edge_range:
  assumes "e \<in> set (edges_of (vase_band_tris n b))"
  shows "b \<le> fst e \<and> fst e < b + 4 * n"
proof -
  from assms obtain a where a: "a \<in> set (edges_of (abs_band n))"
    and e: "e = map_prod (band_row b) (band_row b) a"
    unfolding vase_band_tris_abs edges_of_tri_map by auto
  from abs_band_edges_valid [OF a] have "fst (fst a) < n" "snd (fst a) < 4" by simp_all
  then have "4 * fst (fst a) + snd (fst a) < 4 * n" by simp
  then show ?thesis unfolding e by (simp add: band_row_def map_prod_def split_beta)
qed

lemma abs_band_nondeg:
  assumes "2 \<le> n"
  shows "list_all nondegenerate (abs_band n)"
  unfolding abs_band_def
  using succ_facts(2) [OF assms]
  by (fastforce simp: list_all_iff nondegenerate_def col_outer_def col_inner_def col_wall_def)

lemma abs_band_tris_valid:
  assumes "t \<in> set (abs_band n)"
  shows "case t of (p, q, r) \<Rightarrow> snd p < 4 \<and> snd q < 4 \<and> snd r < 4"
  using assms unfolding abs_band_def
  by (auto simp: col_outer_def col_inner_def col_wall_def)

lemma vase_band_nondeg:
  assumes "2 \<le> n"
  shows "list_all nondegenerate (vase_band_tris n b)"
  unfolding vase_band_tris_abs list_all_iff
proof
  fix t assume "t \<in> set (map (tri_map (band_row b)) (abs_band n))"
  then obtain a where a: "a \<in> set (abs_band n)" and t: "t = tri_map (band_row b) a" by auto
  obtain p q r where pqr: "a = (p, q, r)" by (cases a) auto
  from abs_band_nondeg [OF assms] a have "nondegenerate a" by (simp add: list_all_iff)
  with pqr have ne: "p \<noteq> q" "q \<noteq> r" "r \<noteq> p" by (simp_all add: nondegenerate_def)
  from abs_band_tris_valid [OF a] pqr have v: "snd p < 4" "snd q < 4" "snd r < 4" by simp_all
  from ne v band_row_inj [of p q b] band_row_inj [of q r b] band_row_inj [of r p b]
  show "nondegenerate t"
    unfolding t pqr by (auto simp: nondegenerate_def tri_map_def)
qed

lemma top_cap_col_distinct:
  assumes "s \<noteq> i" and "i < (n::nat)" and "s < n"
  shows "distinct (edges_of [(i, n + i, n + s), (i, n + s, s)])"
  using assms by (auto simp: edges_of_def tri_edges_def)

lemma top_cap_col_disjoint:
  assumes "i \<noteq> j" and "s \<noteq> t" and "i < (n::nat)" and "j < n" and "s < n" and "t < n"
  shows "set (edges_of [(i, n + i, n + s), (i, n + s, s)])
       \<inter> set (edges_of [(j, n + j, n + t), (j, n + t, t)]) = {}"
  using assms by (auto simp: edges_of_def tri_edges_def)

lemma bottom_cap_col_distinct:
  assumes "s \<noteq> i" and "i < (n::nat)" and "s < n"
  shows "distinct (edges_of [(2 * n + i, 3 * n + s, 3 * n + i), (2 * n + i, 2 * n + s, 3 * n + s)])"
  using assms by (auto simp: edges_of_def tri_edges_def)

lemma bottom_cap_col_disjoint:
  assumes "i \<noteq> j" and "s \<noteq> t" and "i < (n::nat)" and "j < n" and "s < n" and "t < n"
  shows "set (edges_of [(2 * n + i, 3 * n + s, 3 * n + i), (2 * n + i, 2 * n + s, 3 * n + s)])
       \<inter> set (edges_of [(2 * n + j, 3 * n + t, 3 * n + j), (2 * n + j, 2 * n + t, 3 * n + t)]) = {}"
  using assms by (auto simp: edges_of_def tri_edges_def)

lemma top_cap_edges_distinct:
  assumes "2 \<le> n"
  shows "distinct (concat (map (\<lambda>i. edges_of [(i, n + i, n + (i + 1) mod n), (i, n + (i + 1) mod n, (i + 1) mod n)]) [0..<n]))"
proof (rule distinct_concat_map_upt)
  fix i assume i: "i < n"
  from succ_facts [OF assms i]
  show "distinct (edges_of [(i, n + i, n + (i + 1) mod n), (i, n + (i + 1) mod n, (i + 1) mod n)])"
    by (intro top_cap_col_distinct i) simp_all
next
  fix i j assume ij: "i < j" "j < n"
  then have i: "i < n" by simp
  from ij have a: "i \<noteq> j" by simp
  from succ_inj [OF i ij(2)] a have b: "(i + 1) mod n \<noteq> (j + 1) mod n" by auto
  show "set (edges_of [(i, n + i, n + (i + 1) mod n), (i, n + (i + 1) mod n, (i + 1) mod n)])
      \<inter> set (edges_of [(j, n + j, n + (j + 1) mod n), (j, n + (j + 1) mod n, (j + 1) mod n)]) = {}"
    by (rule top_cap_col_disjoint [OF a b i ij(2) succ_facts(1) [OF assms i] succ_facts(1) [OF assms ij(2)]])
qed

lemma bottom_cap_edges_distinct:
  assumes "2 \<le> n"
  shows "distinct (concat (map (\<lambda>i. edges_of [(2 * n + i, 3 * n + (i + 1) mod n, 3 * n + i),
            (2 * n + i, 2 * n + (i + 1) mod n, 3 * n + (i + 1) mod n)]) [0..<n]))"
proof (rule distinct_concat_map_upt)
  fix i assume i: "i < n"
  from succ_facts [OF assms i]
  show "distinct (edges_of [(2 * n + i, 3 * n + (i + 1) mod n, 3 * n + i),
            (2 * n + i, 2 * n + (i + 1) mod n, 3 * n + (i + 1) mod n)])"
    by (intro bottom_cap_col_distinct i) simp_all
next
  fix i j assume ij: "i < j" "j < n"
  then have i: "i < n" by simp
  from ij have a: "i \<noteq> j" by simp
  from succ_inj [OF i ij(2)] a have b: "(i + 1) mod n \<noteq> (j + 1) mod n" by auto
  show "set (edges_of [(2 * n + i, 3 * n + (i + 1) mod n, 3 * n + i),
            (2 * n + i, 2 * n + (i + 1) mod n, 3 * n + (i + 1) mod n)])
      \<inter> set (edges_of [(2 * n + j, 3 * n + (j + 1) mod n, 3 * n + j),
            (2 * n + j, 2 * n + (j + 1) mod n, 3 * n + (j + 1) mod n)]) = {}"
    by (rule bottom_cap_col_disjoint [OF a b i ij(2) succ_facts(1) [OF assms i] succ_facts(1) [OF assms ij(2)]])
qed

lemma top_cap_edge_range:
  assumes "i < (n::nat)" and "e \<in> set (edges_of [(i, n + i, n + (i + 1) mod n), (i, n + (i + 1) mod n, (i + 1) mod n)])"
  shows "fst e < 2 * n"
proof -
  from assms(1) have "Suc i mod n < n" by simp
  then have "Suc i mod n < 2 * n" by simp
  with assms show ?thesis by (auto simp: edges_of_def tri_edges_def)
qed

lemma bottom_cap_edge_range:
  assumes "i < (n::nat)" and "e \<in> set (edges_of [(2 * n + i, 3 * n + (i + 1) mod n, 3 * n + i),
            (2 * n + i, 2 * n + (i + 1) mod n, 3 * n + (i + 1) mod n)])"
  shows "2 * n \<le> fst e \<and> fst e < 4 * n"
proof -
  from assms(1) have "Suc i mod n < n" by simp
  then have "Suc i mod n < 2 * n" by simp
  with assms show ?thesis by (auto simp: edges_of_def tri_edges_def)
qed

lemma band_sep:
  assumes "h < (h'::nat)"
  shows "4 * n + 4 * n * h + 4 * n \<le> 4 * n + 4 * n * h'"
proof -
  from assms have "Suc h \<le> h'" by simp
  then have "4 * n * Suc h \<le> 4 * n * h'" by (rule mult_le_mono2)
  then show ?thesis by simp
qed

lemma vase_bands_edges_distinct:
  assumes "3 \<le> n"
  shows "distinct (concat (map (\<lambda>h. edges_of (vase_band_tris n (4 * n + 4 * n * h))) [0..<m]))"
proof (rule distinct_concat_map_upt)
  fix h show "distinct (edges_of (vase_band_tris n (4 * n + 4 * n * h)))"
    by (rule vase_band_edges_distinct [OF assms])
next
  fix h h' :: nat assume hh: "h < h'"
  show "set (edges_of (vase_band_tris n (4 * n + 4 * n * h)))
      \<inter> set (edges_of (vase_band_tris n (4 * n + 4 * n * h'))) = {}"
  proof (rule ccontr)
    assume "\<not> ?thesis"
    then obtain e where 1: "e \<in> set (edges_of (vase_band_tris n (4 * n + 4 * n * h)))"
      and 2: "e \<in> set (edges_of (vase_band_tris n (4 * n + 4 * n * h')))" by blast
    from vase_band_edge_range [OF 1] vase_band_edge_range [OF 2] band_sep [OF hh, of n]
    show False by linarith
  qed
qed

lemma vase_tris_edges_distinct:
  assumes "3 \<le> n"
  shows "distinct (edges_of (vase_tris n m))"
proof -
  from assms have n2: "2 \<le> n" by simp
  let ?T = "concat (map (\<lambda>i. edges_of [(i, n + i, n + (i + 1) mod n), (i, n + (i + 1) mod n, (i + 1) mod n)]) [0..<n])"
  let ?B = "concat (map (\<lambda>i. edges_of [(2 * n + i, 3 * n + (i + 1) mod n, 3 * n + i),
            (2 * n + i, 2 * n + (i + 1) mod n, 3 * n + (i + 1) mod n)]) [0..<n])"
  let ?S = "concat (map (\<lambda>h. edges_of (vase_band_tris n (4 * n + 4 * n * h))) [0..<m])"
  have e: "edges_of (vase_tris n m) = (?T @ ?B) @ ?S"
    unfolding vase_tris_def vase_cap_tris_def
    by (simp only: edges_of_append edges_of_concat)
  have cT: "\<And>e. e \<in> set ?T \<Longrightarrow> fst e < 2 * n"
    using top_cap_edge_range by fastforce
  have cB: "\<And>e. e \<in> set ?B \<Longrightarrow> 2 * n \<le> fst e \<and> fst e < 4 * n"
    using bottom_cap_edge_range by fastforce
  have cS: "\<And>e. e \<in> set ?S \<Longrightarrow> 4 * n \<le> fst e"
  proof -
    fix e assume "e \<in> set ?S"
    then obtain h where "e \<in> set (edges_of (vase_band_tris n (4 * n + 4 * n * h)))" by auto
    from vase_band_edge_range [OF this] show "4 * n \<le> fst e" by simp
  qed
  have "set ?T \<inter> set ?B = {}" using cT cB by fastforce
  moreover have "set ?T \<inter> set ?S = {}" using cT cS by fastforce
  moreover have "set ?B \<inter> set ?S = {}" using cB cS by fastforce
  ultimately show ?thesis
    unfolding e
    using top_cap_edges_distinct [OF n2] bottom_cap_edges_distinct [OF n2]
      vase_bands_edges_distinct [OF assms, of m]
    by (simp only: distinct_append set_append) blast
qed

lemma vase_cap_nondeg:
  assumes "2 \<le> n"
  shows "list_all nondegenerate (vase_cap_tris n)"
proof -
  have "\<And>i. i < n \<Longrightarrow> (i + 1) mod n \<noteq> i \<and> (i + 1) mod n < n"
    using succ_facts [OF assms] by simp
  then show ?thesis
    unfolding vase_cap_tris_def
    by (fastforce simp: list_all_iff nondegenerate_def)
qed

lemma vase_tris_nondeg:
  assumes "2 \<le> n"
  shows "list_all nondegenerate (vase_tris n m)"
  unfolding vase_tris_def
  using vase_cap_nondeg [OF assms] vase_band_nondeg [OF assms]
  by (simp add: list_all_concat_map)

lemma vase_tris_manifold:
  assumes "3 \<le> n"
  shows "manifold_with_boundary (vase_tris n m)"
proof -
  from assms have "2 \<le> n" by simp
  from vase_tris_nondeg [OF this] vase_tris_edges_distinct [OF assms] show ?thesis
    by (simp add: oriented_manifold edges_of_def)
qed

lemma distinct_count_1: "distinct xs \<Longrightarrow> x \<in> set xs \<Longrightarrow> count_list xs x = 1"
  by (induction xs) auto

lemma boundary_edge_count:
  assumes nd: "list_all nondegenerate ts" and d: "distinct (edges_of ts)"
    and uv: "(u, v) \<in> set (edges_of ts)" and vu: "(v, u) \<notin> set (edges_of ts)"
  shows "edge_count ts u v = 1"
proof -
  from uv vu have ne: "u \<noteq> v" by auto
  from d uv have "count_list (edges_of ts) (u, v) = 1"
    by (rule distinct_count_1)
  moreover from vu have "count_list (edges_of ts) (v, u) = 0" by simp
  ultimately show ?thesis
    using edge_count_directed [OF nd ne] by (simp add: edges_of_def)
qed

lemma not_closed:
  assumes nd: "list_all nondegenerate ts" and d: "distinct (edges_of ts)"
    and uv: "(u, v) \<in> set (edges_of ts)" and vu: "(v, u) \<notin> set (edges_of ts)"
  shows "\<not> closed_manifold ts"
proof
  assume c: "closed_manifold ts"
  from uv obtain t where t: "t \<in> set ts" and e: "(u, v) \<in> set (tri_edges t)"
    by (auto simp: edges_of_def)
  from c t e have "edge_count ts (fst (u, v)) (snd (u, v)) = 2"
    unfolding closed_manifold_def by blast
  with boundary_edge_count [OF nd d uv vu] show False by simp
qed

lemma two_mod: "3 \<le> (n::nat) \<Longrightarrow> (1 + 1) mod n = 2"
  by simp

lemma table_rim_edge_in:
  assumes "3 \<le> n"
  shows "(0, 2, 4) \<in> set (table_tris n m)" and "(2, 4) \<in> set (edges_of (table_tris n m))"
proof -
  from assms have "(0, 2, 4) = (\<lambda>i. (0, 2 + 2 * i, 2 + 2 * ((i + 1) mod n))) 0" by simp
  moreover from assms have "0 \<in> set [0..<n]" by simp
  ultimately have "(0, 2, 4) \<in> (\<lambda>i. (0, 2 + 2 * i, 2 + 2 * ((i + 1) mod n))) ` set [0..<n]"
    by (rule image_eqI)
  then show "(0, 2, 4) \<in> set (table_tris n m)"
    unfolding table_tris_def set_append set_map by blast
  then show "(2, 4) \<in> set (edges_of (table_tris n m))"
    by (force simp: edges_of_def tri_edges_def)
qed

lemma table_tris_edges_eq:
  "edges_of (table_tris n m) =
     concat (map (\<lambda>i. tri_edges (0, 2 + 2 * i, 2 + 2 * ((i + 1) mod n))) [0..<n])
     @ concat (map (\<lambda>i. tri_edges (1, 3 + 2 * ((i + 1) mod n), 3 + 2 * i)) [0..<n])
     @ concat (map (\<lambda>q. edges_of (table_quad (2 + 2 * n + 4 * q))) [0..<n * m])"
  unfolding table_tris_def table_sides_flat
  by (simp only: edges_of_append edges_of_map edges_of_concat)

lemma table_edges_cases:
  assumes "e \<in> set (edges_of (table_tris n m))"
  shows "(\<exists>i<n. e \<in> set (tri_edges (0, 2 + 2 * i, 2 + 2 * ((i + 1) mod n))))
       \<or> odd (fst e) \<or> 2 + 2 * n \<le> fst e"
proof -
  from assms consider
      (top) i where "i < n" "e \<in> set (tri_edges (0, 2 + 2 * i, 2 + 2 * ((i + 1) mod n)))"
    | (bottom) i where "i < n" "e \<in> set (tri_edges (1, 3 + 2 * ((i + 1) mod n), 3 + 2 * i))"
    | (side) q where "e \<in> set (edges_of (table_quad (2 + 2 * n + 4 * q)))"
    unfolding table_tris_edges_eq by auto
  then show ?thesis
  proof cases
    case top
    then show ?thesis by blast
  next
    case bottom
    from table_bottom_edge_class [OF bottom] show ?thesis by simp
  next
    case side
    from table_side_edge_class [OF side] show ?thesis by simp
  qed
qed

lemma table_rim_edge_not_reversed:
  assumes "3 \<le> n"
  shows "(4, 2) \<notin> set (edges_of (table_tris n m))"
proof
  assume "(4, 2) \<in> set (edges_of (table_tris n m))"
  from table_edges_cases [OF this] assms
  obtain i where i: "i < n" and e: "(4, 2) \<in> set (tri_edges (0, 2 + 2 * i, 2 + 2 * ((i + 1) mod n)))"
    by auto
  have "\<And>k::nat. k dvd Suc (Suc 0) \<Longrightarrow> k \<le> 2" by (auto dest: dvd_imp_le)
  with e assms show False by (fastforce simp: tri_edges_def)
qed

lemma table_not_closed:
  assumes "3 \<le> n"
  shows "\<not> closed_manifold (table_tris n m)"
proof -
  from assms have n2: "2 \<le> n" by simp
  show ?thesis
    by (rule not_closed [OF table_tris_nondeg [OF n2] table_tris_edges_distinct [OF n2]
          table_rim_edge_in(2) [OF assms] table_rim_edge_not_reversed [OF assms]])
qed

lemma vase_tris_edges_eq:
  "edges_of (vase_tris n m) =
     (concat (map (\<lambda>i. edges_of [(i, n + i, n + (i + 1) mod n), (i, n + (i + 1) mod n, (i + 1) mod n)]) [0..<n])
      @ concat (map (\<lambda>i. edges_of [(2 * n + i, 3 * n + (i + 1) mod n, 3 * n + i),
            (2 * n + i, 2 * n + (i + 1) mod n, 3 * n + (i + 1) mod n)]) [0..<n]))
     @ concat (map (\<lambda>h. edges_of (vase_band_tris n (4 * n + 4 * n * h))) [0..<m])"
  unfolding vase_tris_def vase_cap_tris_def
  by (simp only: edges_of_append edges_of_concat)

lemma vase_edges_cases:
  assumes "e \<in> set (edges_of (vase_tris n m))"
  shows "(\<exists>i<n. e \<in> set (edges_of [(i, n + i, n + (i + 1) mod n), (i, n + (i + 1) mod n, (i + 1) mod n)]))
       \<or> 2 * n \<le> fst e"
proof -
  from assms consider
      (top) i where "i < n" "e \<in> set (edges_of [(i, n + i, n + (i + 1) mod n), (i, n + (i + 1) mod n, (i + 1) mod n)])"
    | (bottom) i where "i < n" "e \<in> set (edges_of [(2 * n + i, 3 * n + (i + 1) mod n, 3 * n + i),
            (2 * n + i, 2 * n + (i + 1) mod n, 3 * n + (i + 1) mod n)])"
    | (band) h where "e \<in> set (edges_of (vase_band_tris n (4 * n + 4 * n * h)))"
    unfolding vase_tris_edges_eq by auto
  then show ?thesis
  proof cases
    case top
    then show ?thesis by blast
  next
    case bottom
    from bottom_cap_edge_range [OF bottom] show ?thesis by simp
  next
    case band
    from vase_band_edge_range [OF band] show ?thesis by simp
  qed
qed

lemma vase_rim_edge_in:
  assumes "3 \<le> n"
  shows "(1, 0) \<in> set (edges_of (vase_tris n m))"
proof -
  from assms have s: "(0 + 1) mod n = 1" by simp
  have "(1, 0) \<in> set (edges_of [(0, n + 0, n + (0 + 1) mod n), (0, n + (0 + 1) mod n, (0 + 1) mod n)])"
    unfolding s by (simp add: edges_of_def tri_edges_def)
  moreover from assms have "0 \<in> set [0..<n]" by simp
  ultimately have "(1, 0) \<in> (\<Union>i \<in> set [0..<n].
      set (edges_of [(i, n + i, n + (i + 1) mod n), (i, n + (i + 1) mod n, (i + 1) mod n)]))"
    by (rule UN_I [rotated])
  then show ?thesis
    unfolding vase_tris_edges_eq set_append set_concat set_map by blast
qed

lemma vase_rim_edge_not_reversed:
  assumes "3 \<le> n"
  shows "(0, 1) \<notin> set (edges_of (vase_tris n m))"
proof
  assume "(0, 1) \<in> set (edges_of (vase_tris n m))"
  from vase_edges_cases [OF this] assms
  obtain i where i: "i < n"
    and e: "(0, 1) \<in> set (edges_of [(i, n + i, n + (i + 1) mod n), (i, n + (i + 1) mod n, (i + 1) mod n)])"
    by auto
  have "\<And>k::nat. k dvd Suc (Suc 0) \<Longrightarrow> k \<le> 2" by (auto dest: dvd_imp_le)
  with e assms show False by (fastforce simp: edges_of_def tri_edges_def)
qed

lemma vase_not_closed:
  assumes "3 \<le> n"
  shows "\<not> closed_manifold (vase_tris n m)"
proof -
  from assms have n2: "2 \<le> n" by simp
  show ?thesis
    by (rule not_closed [OF vase_tris_nondeg [OF n2] vase_tris_edges_distinct [OF assms]
          vase_rim_edge_in [OF assms] vase_rim_edge_not_reversed [OF assms]])
qed

lemma table_segments_ge: "3 \<le> table_segments" "2 \<le> table_segments"
  by (simp_all add: table_segments_def)

lemma vase_segments_ge: "3 \<le> vase_segments"
  by (simp add: vase_segments_def)

lemma tableGeometry_tris_eq:
  "tris (snd (tableGeometry a)) = table_tris table_segments table_height_segments"
  using tableGeometry_tris [of a] by simp

lemma vaseGeometry_tris_eq:
  "tris (fst (snd (vaseGeometry a wt))) = vase_tris vase_segments vase_height_segments"
  by (simp add: vaseGeometry_eq)

text \<open>
  C3 (as amended).  For every argument set, the mesh of the table builder and the mesh of
  the vase builder are consistently wound manifold meshes with boundary: no directed edge
  occurs twice, and every edge of every triangle (as a pair of vertex indices) is shared by
  one or two triangles, never more.
\<close>

theorem meshes_manifold_with_boundary:
  "manifold_with_boundary (tris (snd (tableGeometry a)))
   \<and> manifold_with_boundary (tris (fst (snd (vaseGeometry a wt))))"
  unfolding tableGeometry_tris_eq vaseGeometry_tris_eq
  using table_tris_manifold [OF table_segments_ge(2)] vase_tris_manifold [OF vase_segments_ge]
  by simp

text \<open>
  C3 as stated fails: neither mesh is closed.  Each face group writes its own vertex rows,
  so in the table mesh the rim edge \<open>{2, 4}\<close> of the top fan, and in the vase mesh the outer
  rim edge \<open>{1, 0}\<close> of the top cap, belong to one triangle only.
\<close>

theorem meshes_not_closed_counterexample:
  "\<not> closed_manifold (tris (snd (tableGeometry tableDefaults_args)))
   \<and> \<not> closed_manifold (tris (fst (snd (vaseGeometry vaseDefaults_args 0.5))))"
  unfolding tableGeometry_tris_eq vaseGeometry_tris_eq
  using table_not_closed [OF table_segments_ge(1)] vase_not_closed [OF vase_segments_ge]
  by simp

theorem meshes_manifold_with_boundary_witness:
  "(0, 2, 4) \<in> set (tris (snd (tableGeometry tableDefaults_args)))
   \<and> (0, 2) \<in> set (tri_edges (0, 2, 4 :: nat))
   \<and> 1 \<le> edge_count (tris (snd (tableGeometry tableDefaults_args))) 0 2
   \<and> edge_count (tris (snd (tableGeometry tableDefaults_args))) 0 2 \<le> 2"
proof -
  have t: "(0, 2, 4) \<in> set (tris (snd (tableGeometry tableDefaults_args)))"
    unfolding tableGeometry_tris_eq by (rule table_rim_edge_in(1) [OF table_segments_ge(1)])
  have e: "(0, 2) \<in> set (tri_edges (0, 2, 4 :: nat))" by (simp add: tri_edges_def)
  from meshes_manifold_with_boundary [of tableDefaults_args "0.5"]
  have "\<forall>t \<in> set (tris (snd (tableGeometry tableDefaults_args))). \<forall>e \<in> set (tri_edges t).
          1 \<le> edge_count (tris (snd (tableGeometry tableDefaults_args))) (fst e) (snd e)
        \<and> edge_count (tris (snd (tableGeometry tableDefaults_args))) (fst e) (snd e) \<le> 2"
    unfolding manifold_with_boundary_def by blast
  from this [rule_format, OF t e] t e show ?thesis by simp
qed

end
